theory Spec2Isabelle
  imports Main "HOL-Library.Word" "HOL-Library.Sublist"
begin

unbundle bit_operations_syntax

chapter \<open>The Kiro bridge: codec, translator, server and extension patcher\<close>

text \<open>
  A shallow embedding of \<^verbatim>\<open>src/src/services/proxyPackageService.ts\<close>: the
  JavaScript server program returned by \<^verbatim>\<open>getKiroServerCode\<close> (the CRC-32
  calculator, the event-stream encoder, the model mapping, the request translation and
  the HTTP request handler) and the TypeScript functions that patch and restore the
  Kiro extension file.

  Conventions of the embedding.
  \<^item> A JavaScript string is a \<^typ>\<open>string\<close> holding the UTF-8 code units of a well-formed
    text, so \<^verbatim>\<open>Buffer.from(s, "utf8")\<close> is a bytewise copy. All literals the program
    searches for are ASCII, for which substring and prefix tests on UTF-8 code units and
    on UTF-16 code units agree.
  \<^item> A \<^verbatim>\<open>Buffer\<close> is a list of bytes.
  \<^item> A thrown exception is the \<open>Inl\<close> branch of a sum type.
\<close>

section \<open>CRC-32\<close>

type_synonym byte = "8 word"
type_synonym u32 = "32 word"

text \<open>
  One round of the inner table loop:
  \<^verbatim>\<open>crc = (crc & 1) ? (0xEDB88320 ^ (crc >>> 1)) : (crc >>> 1)\<close>.
  JavaScript's bitwise operators act on the 32-bit pattern of their operands.
\<close>

definition crc_step :: "u32 \<Rightarrow> u32" where
  "crc_step crc = (if crc AND 1 \<noteq> 0 then 0xEDB88320 XOR (drop_bit 1 crc) else drop_bit 1 crc)"

text \<open>
  \<^verbatim>\<open>CRC32_TABLE\<close>: for every \<open>i\<close> from 0 to 255 the register starts as \<open>i\<close>, runs
  eight rounds and is stored at index \<open>i\<close>.
\<close>

definition CRC32_TABLE :: "u32 list" where
  "CRC32_TABLE = map (\<lambda>i. (crc_step ^^ 8) (of_nat i)) [0..<256]"

text \<open>The loop body \<^verbatim>\<open>crc = CRC32_TABLE[(crc ^ data[i]) & 0xFF] ^ (crc >>> 8)\<close>.\<close>

definition crc32_update :: "u32 \<Rightarrow> byte \<Rightarrow> u32" where
  "crc32_update crc b = (CRC32_TABLE ! unat ((crc XOR ucast b) AND 0xFF)) XOR (drop_bit 8 crc)"

definition crc32 :: "byte list \<Rightarrow> u32" where
  "crc32 data = (foldl crc32_update 0xFFFFFFFF data) XOR 0xFFFFFFFF"

text \<open>
  The reference the table-driven function is compared with: the bit-at-a-time CRC-32 of
  zlib and PNG. The register starts as \<open>0xFFFFFFFF\<close>; each byte is XORed into the low
  end of the register, which is then shifted right eight times, the reflected polynomial
  \<open>0xEDB88320\<close> being XORed in whenever a one is shifted out; the result is the register
  XOR \<open>0xFFFFFFFF\<close>.
\<close>

definition reference_shift :: "u32 \<Rightarrow> u32" where
  "reference_shift r = (if bit r 0 then drop_bit 1 r XOR 0xEDB88320 else drop_bit 1 r)"

definition reference_byte :: "u32 \<Rightarrow> byte \<Rightarrow> u32" where
  "reference_byte r b = (reference_shift ^^ 8) (r XOR ucast b)"

definition crc32_reference :: "byte list \<Rightarrow> u32" where
  "crc32_reference data = (foldl reference_byte 0xFFFFFFFF data) XOR 0xFFFFFFFF"

section \<open>Buffers\<close>

datatype js_error = TypeError | RangeError | SyntaxError

text \<open>\<^verbatim>\<open>Buffer.from(s, "utf8")\<close> on a string held as UTF-8 code units.\<close>

definition utf8 :: "string \<Rightarrow> byte list" where
  "utf8 s = map (\<lambda>c. of_nat (of_char c)) s"

text \<open>\<^verbatim>\<open>Buffer.alloc(n)\<close>: \<open>n\<close> zero bytes.\<close>

definition Buffer_alloc :: "nat \<Rightarrow> byte list" where
  "Buffer_alloc n = replicate n 0"

text \<open>Overwrite the bytes of \<open>buf\<close> from \<open>offset\<close> on with \<open>bs\<close> (which must fit).\<close>

definition overwrite :: "byte list \<Rightarrow> nat \<Rightarrow> byte list \<Rightarrow> byte list" where
  "overwrite bs offset buf = take offset buf @ bs @ drop (offset + length bs) buf"

text \<open>The bytes of a number, most significant first.\<close>

definition be16 :: "nat \<Rightarrow> byte list" where
  "be16 v = [of_nat (v div 256), of_nat v]"

definition be32 :: "nat \<Rightarrow> byte list" where
  "be32 v = [of_nat (v div 16777216), of_nat (v div 65536), of_nat (v div 256), of_nat v]"

text \<open>
  \<^verbatim>\<open>buf.writeUInt8(value, offset)\<close>, \<^verbatim>\<open>buf.writeUInt16BE(value, offset)\<close> and
  \<^verbatim>\<open>buf.writeUInt32BE(value, offset)\<close>. Node throws a range error when the value does not
  fit the width or the bytes do not fit the buffer.
\<close>

definition writeUInt8 :: "nat \<Rightarrow> nat \<Rightarrow> byte list \<Rightarrow> js_error + byte list" where
  "writeUInt8 v offset buf =
     (if v < 256 \<and> offset + 1 \<le> length buf then Inr (overwrite [of_nat v] offset buf)
      else Inl RangeError)"

definition writeUInt16BE :: "nat \<Rightarrow> nat \<Rightarrow> byte list \<Rightarrow> js_error + byte list" where
  "writeUInt16BE v offset buf =
     (if v < 65536 \<and> offset + 2 \<le> length buf then Inr (overwrite (be16 v) offset buf)
      else Inl RangeError)"

definition writeUInt32BE :: "nat \<Rightarrow> nat \<Rightarrow> byte list \<Rightarrow> js_error + byte list" where
  "writeUInt32BE v offset buf =
     (if v < 4294967296 \<and> offset + 4 \<le> length buf then Inr (overwrite (be32 v) offset buf)
      else Inl RangeError)"

text \<open>
  \<^verbatim>\<open>source.copy(target, targetStart)\<close>: copies as many bytes of the source as fit behind
  \<open>targetStart\<close>; never throws for a non-negative start.
\<close>

definition Buffer_copy :: "byte list \<Rightarrow> byte list \<Rightarrow> nat \<Rightarrow> byte list" where
  "Buffer_copy source target targetStart =
     overwrite (take (length target - targetStart) source) targetStart target"

text \<open>\<^verbatim>\<open>buf.readUInt32BE(offset)\<close>, used to state what a frame holds.\<close>

definition readUInt32BE :: "byte list \<Rightarrow> nat \<Rightarrow> nat" where
  "readUInt32BE buf offset =
     unat (buf ! offset) * 16777216 + unat (buf ! (offset + 1)) * 65536
     + unat (buf ! (offset + 2)) * 256 + unat (buf ! (offset + 3))"

text \<open>Sequencing of steps that may throw.\<close>

definition and_then :: "'e + 'a \<Rightarrow> ('a \<Rightarrow> 'e + 'b) \<Rightarrow> 'e + 'b" where
  "and_then m f = (case m of Inl e \<Rightarrow> Inl e | Inr x \<Rightarrow> f x)"

section \<open>JavaScript values\<close>

text \<open>
  The values the server program handles: what \<^verbatim>\<open>JSON.parse\<close> returns, \<^verbatim>\<open>undefined\<close>
  (the result of reading a missing property), and the members every object literal
  inherits from \<^verbatim>\<open>Object.prototype\<close>. A number is held as the text that
  \<^verbatim>\<open>Number.prototype.toString\<close> gives for it (\<open>''0.5''\<close>, \<open>''8192''\<close>, \<open>''NaN''\<close>; both
  zeros are \<open>''0''\<close>). An object is the list of its own properties in enumeration order.
\<close>

datatype jsval =
    JUndefined
  | JNull
  | JBool bool
  | JNum string
  | JStr string
  | JArr "jsval list"
  | JObj "(string \<times> jsval) list"
  | JBuiltin string

text \<open>\<^verbatim>\<open>ToBoolean\<close>: what \<^verbatim>\<open>if (v)\<close>, \<^verbatim>\<open>!v\<close> and \<^verbatim>\<open>v || w\<close> test.\<close>

fun truthy :: "jsval \<Rightarrow> bool" where
  "truthy JUndefined = False"
| "truthy JNull = False"
| "truthy (JBool b) = b"
| "truthy (JNum r) = (r \<noteq> ''0'' \<and> r \<noteq> ''NaN'')"
| "truthy (JStr s) = (s \<noteq> [])"
| "truthy (JArr xs) = True"
| "truthy (JObj kvs) = True"
| "truthy (JBuiltin n) = True"

text \<open>\<^verbatim>\<open>a || b\<close>.\<close>

definition js_or :: "jsval \<Rightarrow> jsval \<Rightarrow> jsval" where
  "js_or a b = (if truthy a then a else b)"

text \<open>
  \<^verbatim>\<open>v.key\<close> for the property names the program reads (\<open>conversationState\<close>,
  \<open>currentMessage\<close>, \<open>history\<close>, \<open>userInputMessage\<close>, \<open>assistantResponseMessage\<close>,
  \<open>content\<close>, \<open>modelId\<close>, \<open>type\<close>, \<open>delta\<close>, \<open>text\<close>, \<open>models\<close>), none of which
  is a member of a built-in prototype: reading from \<^verbatim>\<open>null\<close> or \<^verbatim>\<open>undefined\<close> throws,
  an object gives its own property, every other value gives \<^verbatim>\<open>undefined\<close>.
\<close>

fun get_prop :: "jsval \<Rightarrow> string \<Rightarrow> js_error + jsval" where
  "get_prop JUndefined key = Inl TypeError"
| "get_prop JNull key = Inl TypeError"
| "get_prop (JObj kvs) key = Inr (case map_of kvs key of Some v \<Rightarrow> v | None \<Rightarrow> JUndefined)"
| "get_prop v key = Inr JUndefined"

text \<open>\<^verbatim>\<open>v?.key\<close>: \<^verbatim>\<open>undefined\<close> instead of throwing.\<close>

definition opt_prop :: "jsval \<Rightarrow> string \<Rightarrow> jsval" where
  "opt_prop v key = (case get_prop v key of Inl e \<Rightarrow> JUndefined | Inr w \<Rightarrow> w)"

subsection \<open>\<^verbatim>\<open>JSON.stringify\<close>\<close>

fun join_with :: "string \<Rightarrow> string list \<Rightarrow> string" where
  "join_with sep [] = []"
| "join_with sep [x] = x"
| "join_with sep (x # y # ys) = x @ sep @ join_with sep (y # ys)"

definition hex_digit :: "nat \<Rightarrow> char" where
  "hex_digit n = (''0123456789abcdef'') ! (n mod 16)"

text \<open>
  \<^verbatim>\<open>QuoteJSONString\<close> for one code unit: the quote, the backslash and the control
  characters are escaped, everything else is copied.
\<close>

definition JSON_escape :: "char \<Rightarrow> string" where
  "JSON_escape c =
     (if c = CHR 0x22 then [CHR 0x5C, CHR 0x22]
      else if c = CHR 0x5C then [CHR 0x5C, CHR 0x5C]
      else if c = CHR 0x08 then [CHR 0x5C, CHR ''b'']
      else if c = CHR 0x0C then [CHR 0x5C, CHR ''f'']
      else if c = CHR 0x0A then [CHR 0x5C, CHR ''n'']
      else if c = CHR 0x0D then [CHR 0x5C, CHR ''r'']
      else if c = CHR 0x09 then [CHR 0x5C, CHR ''t'']
      else if (of_char c :: nat) < 32
        then [CHR 0x5C, CHR ''u'', CHR ''0'', CHR ''0'',
              hex_digit (of_char c div 16), hex_digit (of_char c)]
      else [c])"

definition JSON_quote :: "string \<Rightarrow> string" where
  "JSON_quote s = [CHR 0x22] @ concat (map JSON_escape s) @ [CHR 0x22]"

text \<open>
  \<^verbatim>\<open>JSON.stringify(v)\<close>; \<open>None\<close> is the result \<^verbatim>\<open>undefined\<close>. A property whose value
  serializes to \<^verbatim>\<open>undefined\<close> is left out of an object and written \<open>null\<close> in an array;
  a number that is not finite is written \<open>null\<close>; an inherited function is
  \<^verbatim>\<open>undefined\<close> and \<^verbatim>\<open>Object.prototype\<close> itself has no enumerable property.
\<close>

fun JSON_stringify :: "jsval \<Rightarrow> string option" where
  "JSON_stringify JUndefined = None"
| "JSON_stringify JNull = Some ''null''"
| "JSON_stringify (JBool b) = Some (if b then ''true'' else ''false'')"
| "JSON_stringify (JNum r) =
     Some (if r = ''NaN'' \<or> r = ''Infinity'' \<or> r = ''-Infinity'' then ''null'' else r)"
| "JSON_stringify (JStr s) = Some (JSON_quote s)"
| "JSON_stringify (JArr xs) =
     Some (''['' @ join_with '','' (map (\<lambda>x. case JSON_stringify x of None \<Rightarrow> ''null'' | Some t \<Rightarrow> t) xs)
           @ '']'')"
| "JSON_stringify (JObj kvs) =
     Some (''{'' @ join_with '',''
              (concat (map (\<lambda>kv. case JSON_stringify (snd kv) of None \<Rightarrow> []
                                   | Some t \<Rightarrow> [JSON_quote (fst kv) @ '':'' @ t]) kvs))
           @ ''}'')"
| "JSON_stringify (JBuiltin n) = (if n = ''__proto__'' then Some ''{}'' else None)"

section \<open>The event-stream encoder\<close>

text \<open>
  \<^verbatim>\<open>encodeStringHeader(name, value)\<close>: a buffer of \<open>1 + |name| + 1 + 2 + |value|\<close> zero
  bytes is filled from left to right.
\<close>

definition encodeStringHeader :: "string \<Rightarrow> string \<Rightarrow> js_error + byte list" where
  "encodeStringHeader name val =
     (let nameBuffer = utf8 name;
          valueBuffer = utf8 val;
          header = Buffer_alloc (1 + length nameBuffer + 1 + 2 + length valueBuffer)
      in and_then (writeUInt8 (length nameBuffer) 0 header) (\<lambda>header.
         let header = Buffer_copy nameBuffer header 1;
             offset = 1 + length nameBuffer
         in and_then (writeUInt8 7 offset header) (\<lambda>header.
            and_then (writeUInt16BE (length valueBuffer) (offset + 1) header) (\<lambda>header.
            Inr (Buffer_copy valueBuffer header (offset + 1 + 2))))))"

text \<open>
  \<^verbatim>\<open>encodeEventStreamMessage(eventType, payload)\<close>. \<^verbatim>\<open>Buffer.from(undefined, "utf8")\<close>
  throws a type error, which is what happens when the payload does not serialize.
\<close>

definition encodeEventStreamMessage :: "string \<Rightarrow> jsval \<Rightarrow> js_error + byte list" where
  "encodeEventStreamMessage eventType payload =
     and_then (encodeStringHeader '':event-type'' eventType) (\<lambda>h1.
     and_then (encodeStringHeader '':content-type'' ''application/json'') (\<lambda>h2.
     and_then (encodeStringHeader '':message-type'' ''event'') (\<lambda>h3.
     let headersBuffer = concat [h1, h2, h3]
     in and_then (case JSON_stringify payload of None \<Rightarrow> Inl TypeError
                  | Some text \<Rightarrow> Inr (utf8 text)) (\<lambda>payloadBuffer.
        let totalLength = 12 + length headersBuffer + length payloadBuffer + 4;
            message = Buffer_alloc totalLength
        in and_then (writeUInt32BE totalLength 0 message) (\<lambda>message.
           and_then (writeUInt32BE (length headersBuffer) 4 message) (\<lambda>message.
           let preludeCrc = crc32 (take 8 message)
           in and_then (writeUInt32BE (unat preludeCrc) 8 message) (\<lambda>message.
              let message = Buffer_copy headersBuffer message 12;
                  offset = 12 + length headersBuffer;
                  message = Buffer_copy payloadBuffer message offset;
                  offset = offset + length payloadBuffer;
                  messageCrc = crc32 (take offset message)
              in writeUInt32BE (unat messageCrc) offset message)))))))"

definition createAssistantResponseEvent :: "jsval \<Rightarrow> js_error + byte list" where
  "createAssistantResponseEvent content =
     encodeEventStreamMessage ''assistantResponseEvent'' (JObj [(''content'', content)])"

definition createMeteringEvent :: "jsval \<Rightarrow> js_error + byte list" where
  "createMeteringEvent usage =
     encodeEventStreamMessage ''meteringEvent''
       (JObj [(''unit'', JStr ''credit''), (''unitPlural'', JStr ''credits''), (''usage'', usage)])"

definition createContextUsageEvent :: "jsval \<Rightarrow> js_error + byte list" where
  "createContextUsageEvent percentage =
     encodeEventStreamMessage ''contextUsageEvent'' (JObj [(''contextUsagePercentage'', percentage)])"

subsection \<open>The layout of a frame\<close>

text \<open>
  What the encoder's buffers hold once every write has been made: a header is the name
  length, the name, the type tag 7, the value length on two bytes and the value; a
  message is the prelude (total length, headers length), the CRC-32 of the prelude, the
  headers, the payload and the CRC-32 of everything before it.
\<close>

definition header_bytes :: "string \<Rightarrow> string \<Rightarrow> byte list" where
  "header_bytes name val =
     [of_nat (length name)] @ utf8 name @ [7] @ be16 (length val) @ utf8 val"

definition message_headers :: "string \<Rightarrow> byte list" where
  "message_headers eventType =
     header_bytes '':event-type'' eventType
     @ header_bytes '':content-type'' ''application/json''
     @ header_bytes '':message-type'' ''event''"

definition frame_bytes :: "byte list \<Rightarrow> byte list \<Rightarrow> byte list" where
  "frame_bytes headers payload =
     (let prelude = be32 (12 + length headers + length payload + 4) @ be32 (length headers);
          body = prelude @ be32 (unat (crc32 prelude)) @ headers @ payload
      in body @ be32 (unat (crc32 body)))"

text \<open>The frame of an event: its three headers and its JSON text, framed.\<close>

definition event_frame :: "string \<Rightarrow> string \<Rightarrow> byte list" where
  "event_frame eventType json = frame_bytes (message_headers eventType) (utf8 json)"

text \<open>
  The second half of \<open>encodeEventStreamMessage\<close>, from \<^verbatim>\<open>const totalLength\<close> on, as a
  function of the two buffers built in the first half.
\<close>

definition write_frame :: "byte list \<Rightarrow> byte list \<Rightarrow> js_error + byte list" where
  "write_frame headersBuffer payloadBuffer =
       (let totalLength = 12 + length headersBuffer + length payloadBuffer + 4;
            message = Buffer_alloc totalLength
        in and_then (writeUInt32BE totalLength 0 message) (\<lambda>message.
           and_then (writeUInt32BE (length headersBuffer) 4 message) (\<lambda>message.
           let preludeCrc = crc32 (take 8 message)
           in and_then (writeUInt32BE (unat preludeCrc) 8 message) (\<lambda>message.
              let message = Buffer_copy headersBuffer message 12;
                  offset = 12 + length headersBuffer;
                  message = Buffer_copy payloadBuffer message offset;
                  offset = offset + length payloadBuffer;
                  messageCrc = crc32 (take offset message)
              in writeUInt32BE (unat messageCrc) offset message))))"

section \<open>The protocol translator\<close>

subsection \<open>Property keys\<close>

text \<open>
  \<^verbatim>\<open>ToString\<close>, which turns the operand of \<^verbatim>\<open>MODEL_MAP[id]\<close> into a property key.
  An array is the comma-separated \<^verbatim>\<open>join\<close> of its elements, \<^verbatim>\<open>null\<close> and
  \<^verbatim>\<open>undefined\<close> elements being empty. A parsed object is \<open>[object Object]\<close>, unless it
  has an own \<open>toString\<close> property: that is a JSON value and not callable, and the
  inherited \<^verbatim>\<open>valueOf\<close> returns the object, so the conversion throws.
\<close>

fun js_ToString :: "jsval \<Rightarrow> js_error + string" where
  "js_ToString JUndefined = Inr ''undefined''"
| "js_ToString JNull = Inr ''null''"
| "js_ToString (JBool b) = Inr (if b then ''true'' else ''false'')"
| "js_ToString (JNum r) = Inr r"
| "js_ToString (JStr s) = Inr s"
| "js_ToString (JArr xs) =
     (let parts = map (\<lambda>x. if x = JUndefined \<or> x = JNull then Inr [] else js_ToString x) xs
      in if list_ex isl parts then Inl TypeError else Inr (join_with '','' (map projr parts)))"
| "js_ToString (JObj kvs) =
     (if map_of kvs ''toString'' \<noteq> None then Inl TypeError else Inr ''[object Object]'')"
| "js_ToString (JBuiltin n) =
     Inr (if n = ''__proto__'' then ''[object Object]''
          else ''function '' @ n @ ''() { [native code] }'')"

subsection \<open>\<^verbatim>\<open>mapModelId\<close>\<close>

text \<open>The own properties of the object literal \<^verbatim>\<open>MODEL_MAP\<close>.\<close>

definition MODEL_MAP :: "(string \<times> string) list" where
  "MODEL_MAP = [(''claude-haiku'', ''gemini-3-flash''), (''simple-task'', ''gemini-3-flash'')]"

text \<open>
  \<^verbatim>\<open>MODEL_MAP\<close> is written as an object literal, so its prototype is
  \<^verbatim>\<open>Object.prototype\<close> and a lookup that finds no own property goes on there. These
  are the names \<^verbatim>\<open>Object.prototype\<close> defines in Node.
\<close>

definition Object_prototype_names :: "string list" where
  "Object_prototype_names =
     [''constructor'', ''__defineGetter__'', ''__defineSetter__'', ''hasOwnProperty'',
      ''__lookupGetter__'', ''__lookupSetter__'', ''isPrototypeOf'', ''propertyIsEnumerable'',
      ''toString'', ''valueOf'', ''__proto__'', ''toLocaleString'']"

text \<open>\<^verbatim>\<open>MODEL_MAP[key]\<close> for a property key.\<close>

definition MODEL_MAP_get :: "string \<Rightarrow> jsval" where
  "MODEL_MAP_get key =
     (case map_of MODEL_MAP key of
        Some target \<Rightarrow> JStr target
      | None \<Rightarrow> if key \<in> set Object_prototype_names then JBuiltin key else JUndefined)"

text \<open>\<^verbatim>\<open>return MODEL_MAP[id] || id || "claude-sonnet-4-5-thinking"\<close>.\<close>

definition mapModelId :: "jsval \<Rightarrow> js_error + jsval" where
  "mapModelId ident =
     and_then (js_ToString ident) (\<lambda>key.
       Inr (js_or (MODEL_MAP_get key) (js_or ident (JStr ''claude-sonnet-4-5-thinking''))))"

subsection \<open>\<^verbatim>\<open>kiroToAnthropic\<close>\<close>

text \<open>A loop whose body may throw: the first exception ends it.\<close>

fun fold_err :: "('s \<Rightarrow> 'a \<Rightarrow> 'e + 's) \<Rightarrow> 'a list \<Rightarrow> 's \<Rightarrow> 'e + 's" where
  "fold_err f [] s = Inr s"
| "fold_err f (x # xs) s = (case f s x of Inl e \<Rightarrow> Inl e | Inr s' \<Rightarrow> fold_err f xs s')"

text \<open>
  The values \<^verbatim>\<open>for (const msg of v)\<close> runs through: the elements of an array, the
  code points of a string (each a string of its own); every other value is not iterable.
\<close>

definition is_continuation :: "char \<Rightarrow> bool" where
  "is_continuation c = (128 \<le> (of_char c :: nat) \<and> (of_char c :: nat) < 192)"

function code_points :: "string \<Rightarrow> string list" where
  "code_points [] = []"
| "code_points (c # cs) =
     (c # takeWhile is_continuation cs) # code_points (dropWhile is_continuation cs)"
  by pat_completeness auto
termination
  by (relation "measure length") (auto simp: length_dropWhile_le less_Suc_eq_le)

fun js_iterate :: "jsval \<Rightarrow> js_error + jsval list" where
  "js_iterate (JArr xs) = Inr xs"
| "js_iterate (JStr s) = Inr (map JStr (code_points s))"
| "js_iterate v = Inl TypeError"

text \<open>
  The body of the loop over the history:
  \<^verbatim>\<open>if (msg.userInputMessage) messages.push({ role: "user", content: msg.userInputMessage.content });\<close>
  \<^verbatim>\<open>else if (msg.assistantResponseMessage?.content) messages.push({ role: "assistant", content: [{ type: "text", text: msg.assistantResponseMessage.content }] });\<close>
\<close>

definition text_block :: "jsval \<Rightarrow> jsval" where
  "text_block t = JArr [JObj [(''type'', JStr ''text''), (''text'', t)]]"

definition history_step :: "jsval list \<Rightarrow> jsval \<Rightarrow> js_error + jsval list" where
  "history_step messages msg =
     and_then (get_prop msg ''userInputMessage'') (\<lambda>u.
       if truthy u then
         and_then (get_prop u ''content'') (\<lambda>c.
           Inr (messages @ [JObj [(''role'', JStr ''user''), (''content'', c)]]))
       else
         and_then (get_prop msg ''assistantResponseMessage'') (\<lambda>a.
           if truthy (opt_prop a ''content'') then
             and_then (get_prop a ''content'') (\<lambda>c.
               Inr (messages @ [JObj [(''role'', JStr ''assistant''), (''content'', text_block c)]]))
           else Inr messages))"

definition kiroToAnthropic :: "jsval \<Rightarrow> js_error + jsval" where
  "kiroToAnthropic req =
     (let cs = js_or (opt_prop req ''conversationState'') (JObj [])
      in and_then (get_prop cs ''currentMessage'') (\<lambda>cm.
         and_then (get_prop cs ''history'') (\<lambda>history.
         and_then (js_iterate (js_or history (JArr []))) (\<lambda>entries.
         and_then (fold_err history_step entries []) (\<lambda>messages.
         let current = opt_prop (opt_prop cm ''userInputMessage'') ''content'';
             messages = (if truthy current
                         then messages @ [JObj [(''role'', JStr ''user''),
                                                (''content'', text_block current)]]
                         else messages)
         in and_then (mapModelId (opt_prop (opt_prop cm ''userInputMessage'') ''modelId'')) (\<lambda>model.
            Inr (JObj [(''model'', model), (''messages'', JArr messages),
                       (''max_tokens'', JNum ''8192''), (''stream'', JBool True)])))))))"

subsection \<open>What a request stands for\<close>



subsection \<open>The model list\<close>

definition FALLBACK_MODELS :: "jsval list" where
  "FALLBACK_MODELS =
     [JStr ''claude-sonnet-4-5-thinking'', JStr ''claude-sonnet-4-5'',
      JStr ''gemini-3-pro-high'', JStr ''gemini-3-flash'']"

text \<open>\<^verbatim>\<open>s.includes(sub)\<close> on strings.\<close>

fun js_includes :: "string \<Rightarrow> string \<Rightarrow> bool" where
  "js_includes [] sub = (sub = [])"
| "js_includes (c # cs) sub = (prefix sub (c # cs) \<or> js_includes cs sub)"

text \<open>
  The callback \<^verbatim>\<open>m => !m.includes("image") && !m.startsWith("gemini-2.5")\<close>. A string
  has both methods. An array has \<^verbatim>\<open>includes\<close> only, so the callback throws unless the
  first test already decides; any other value has neither method.
\<close>

fun model_kept :: "jsval \<Rightarrow> js_error + bool" where
  "model_kept (JStr m) = Inr (\<not> js_includes m ''image'' \<and> \<not> prefix ''gemini-2.5'' m)"
| "model_kept (JArr xs) = (if JStr ''image'' \<in> set xs then Inr False else Inl TypeError)"
| "model_kept m = Inl TypeError"

fun filter_err :: "('a \<Rightarrow> 'e + bool) \<Rightarrow> 'a list \<Rightarrow> 'e + 'a list" where
  "filter_err p [] = Inr []"
| "filter_err p (x # xs) =
     (case p x of
        Inl e \<Rightarrow> Inl e
      | Inr keep \<Rightarrow> (case filter_err p xs of
                       Inl e \<Rightarrow> Inl e
                     | Inr ys \<Rightarrow> Inr (if keep then x # ys else ys)))"

text \<open>\<^verbatim>\<open>v.filter(callback)\<close>: only an array has the method.\<close>

fun Array_filter :: "jsval \<Rightarrow> (jsval \<Rightarrow> js_error + bool) \<Rightarrow> js_error + jsval list" where
  "Array_filter (JArr xs) p = filter_err p xs"
| "Array_filter v p = Inl TypeError"

text \<open>
  What the request to \<^verbatim>\<open>/account-limits?format=json\<close> comes to. The promise of
  \<^verbatim>\<open>getFilteredModels\<close> is settled by two events only: an \<open>error\<close> event of the request,
  and the \<open>end\<close> event of the response, after which \<^verbatim>\<open>data\<close> is the given body. The
  request sets no timeout and the response has no \<open>error\<close> or \<open>aborted\<close> handler, so a
  reply that stalls, or is cut off after its head has arrived, brings neither event.
\<close>

datatype limits_reply = LimitsError | LimitsBody string | LimitsUnfinished

text \<open>
  \<^verbatim>\<open>getFilteredModels\<close>. \<open>JSON_parse\<close> stands for \<^verbatim>\<open>JSON.parse\<close>, \<open>None\<close> being a
  syntax error. The promise resolves to \<^verbatim>\<open>null\<close> on a request error and on a body that
  does not parse; an exception in the rest is caught and gives the fallback list. The
  result \<open>None\<close> is a promise that is never settled.
\<close>

definition getFilteredModels ::
  "(string \<Rightarrow> jsval option) \<Rightarrow> limits_reply \<Rightarrow> jsval list option" where
  "getFilteredModels JSON_parse reply =
     (case (case reply of
              LimitsError \<Rightarrow> Some JNull
            | LimitsBody data \<Rightarrow> Some (case JSON_parse data of None \<Rightarrow> JNull | Some v \<Rightarrow> v)
            | LimitsUnfinished \<Rightarrow> None) of
        None \<Rightarrow> None
      | Some res \<Rightarrow>
          Some (case (if \<not> truthy res then Inr FALLBACK_MODELS
                      else and_then (get_prop res ''models'') (\<lambda>models.
                             if \<not> truthy models then Inr FALLBACK_MODELS
                             else Array_filter models model_kept))
                of Inl e \<Rightarrow> FALLBACK_MODELS | Inr ids \<Rightarrow> ids))"

definition buildModelResponse :: "jsval list \<Rightarrow> jsval" where
  "buildModelResponse modelIds =
     (let models = map (\<lambda>ident.
            JObj [(''modelId'', ident), (''modelName'', ident), (''description'', ident),
                  (''rateMultiplier'', JNum ''0''), (''rateUnit'', JStr ''credit''),
                  (''supportedInputTypes'', JArr [JStr ''TEXT'']),
                  (''tokenLimits'', JObj [(''maxInputTokens'', JNum ''200000''),
                                          (''maxOutputTokens'', JNum ''8192'')])]) modelIds
      in JObj [(''defaultModel'',
                JObj [(''modelId'',
                       js_or (case models of [] \<Rightarrow> JUndefined | m # _ \<Rightarrow> opt_prop m ''modelId'')
                             (JStr ''claude-sonnet-4-5-thinking''))]),
               (''models'', JArr models), (''nextToken'', JNull)])"

section \<open>The bridge server\<close>

record http_request =
  req_method :: string
  req_path :: string
  req_body :: string

text \<open>
  The response object: the status code, the headers set so far, the chunks written to the
  body and whether \<^verbatim>\<open>res.end()\<close> has been called.
\<close>

record http_response =
  res_status :: nat
  res_headers :: "(string \<times> string) list"
  res_chunks :: "byte list list"
  res_ended :: bool

definition new_response :: http_response where
  "new_response = \<lparr>res_status = 200, res_headers = [], res_chunks = [], res_ended = False\<rparr>"

definition setHeader :: "string \<Rightarrow> string \<Rightarrow> http_response \<Rightarrow> http_response" where
  "setHeader name val res = res\<lparr>res_headers := res_headers res @ [(name, val)]\<rparr>"

definition writeHead :: "nat \<Rightarrow> (string \<times> string) list \<Rightarrow> http_response \<Rightarrow> http_response" where
  "writeHead code hs res = res\<lparr>res_status := code, res_headers := res_headers res @ hs\<rparr>"

definition res_write :: "byte list \<Rightarrow> http_response \<Rightarrow> http_response" where
  "res_write chunk res = res\<lparr>res_chunks := res_chunks res @ [chunk]\<rparr>"

definition res_end :: "http_response \<Rightarrow> http_response" where
  "res_end res = res\<lparr>res_ended := True\<rparr>"

text \<open>\<^verbatim>\<open>res.end(JSON.stringify(v))\<close>.\<close>

definition res_end_json :: "jsval \<Rightarrow> http_response \<Rightarrow> http_response" where
  "res_end_json v res =
     (case JSON_stringify v of
        None \<Rightarrow> res_end res
      | Some json \<Rightarrow> res_end (res_write (utf8 json) res))"

subsection \<open>Streaming a reply\<close>

text \<open>\<^verbatim>\<open>s.split("\n")\<close>: the pieces between line feeds, at least one.\<close>

fun split_lines :: "string \<Rightarrow> string list" where
  "split_lines [] = [[]]"
| "split_lines (c # cs) =
     (if c = CHR 0x0A then [] # split_lines cs
      else (case split_lines cs of
              [] \<Rightarrow> [[c]]
            | l # ls \<Rightarrow> (c # l) # ls))"

text \<open>
  The state of the \<^verbatim>\<open>proxyRes\<close> handlers: the unfinished line \<^verbatim>\<open>buf\<close>, the counter
  \<^verbatim>\<open>tc\<close> and the response written to.
\<close>

record stream_state =
  st_buf :: string
  st_tc :: nat
  st_res :: http_response

text \<open>
  One turn of \<^verbatim>\<open>for (const ln of lines)\<close>. Everything from \<^verbatim>\<open>JSON.parse\<close> on is inside
  a \<^verbatim>\<open>try\<close> whose handler only logs; the counter has been raised when the encoder throws.
\<close>

definition on_line :: "(string \<Rightarrow> jsval option) \<Rightarrow> stream_state \<Rightarrow> string \<Rightarrow> stream_state" where
  "on_line JSON_parse st ln =
     (if prefix ''data: '' ln then
        (let d = drop 6 ln
         in if d = ''[DONE]'' then st
            else (case JSON_parse d of
                    None \<Rightarrow> st
                  | Some ev \<Rightarrow>
                      (case get_prop ev ''type'' of
                         Inl e \<Rightarrow> st
                       | Inr ty \<Rightarrow>
                           if ty = JStr ''content_block_delta''
                              \<and> truthy (opt_prop (opt_prop ev ''delta'') ''text'')
                           then (case createAssistantResponseEvent
                                        (opt_prop (opt_prop ev ''delta'') ''text'') of
                                   Inl e \<Rightarrow> st\<lparr>st_tc := st_tc st + 1\<rparr>
                                 | Inr frame \<Rightarrow>
                                     st\<lparr>st_tc := st_tc st + 1,
                                        st_res := res_write frame (st_res st)\<rparr>)
                           else st)))
      else st)"

text \<open>The \<open>data\<close> handler of \<^verbatim>\<open>proxyRes\<close>.\<close>

definition on_data :: "(string \<Rightarrow> jsval option) \<Rightarrow> stream_state \<Rightarrow> string \<Rightarrow> stream_state" where
  "on_data JSON_parse st chunk =
     (let lines = split_lines (st_buf st @ chunk)
      in foldl (on_line JSON_parse) (st\<lparr>st_buf := last lines\<rparr>) (butlast lines))"

text \<open>
  The \<open>end\<close> handler of \<^verbatim>\<open>proxyRes\<close>:
  \<^verbatim>\<open>res.write(createMeteringEvent(0.001)); res.write(createContextUsageEvent(0.5)); res.end();\<close>
  An exception here would leave the handler before the later calls.
\<close>

definition on_end :: "stream_state \<Rightarrow> http_response" where
  "on_end st =
     (case createMeteringEvent (JNum ''0.001'') of
        Inl e \<Rightarrow> st_res st
      | Inr metering \<Rightarrow>
          (case createContextUsageEvent (JNum ''0.5'') of
             Inl e \<Rightarrow> res_write metering (st_res st)
           | Inr usage \<Rightarrow> res_end (res_write usage (res_write metering (st_res st)))))"

text \<open>
  What the request to \<^verbatim>\<open>/v1/messages\<close> comes to: an \<open>error\<close> event of the request, or a
  response that delivers the given chunks and ends.
\<close>

datatype proxy_reply = ProxyError | ProxyResponse "string list"

text \<open>The \<open>end\<close> handler of a \<^verbatim>\<open>POST /generateAssistantResponse\<close> request.\<close>

definition generateAssistantResponse ::
  "(string \<Rightarrow> jsval option) \<Rightarrow> proxy_reply \<Rightarrow> string \<Rightarrow> http_response \<Rightarrow> http_response" where
  "generateAssistantResponse JSON_parse proxy body res =
     (case (case JSON_parse body of None \<Rightarrow> Inl SyntaxError | Some v \<Rightarrow> kiroToAnthropic v) of
        Inl e \<Rightarrow> res_end (writeHead 500 [] res)
      | Inr anthropicReq \<Rightarrow>
          (let res = writeHead 200 [(''Content-Type'', ''application/vnd.amazon.eventstream''),
                                    (''Transfer-Encoding'', ''chunked'')] res
           in case proxy of
                ProxyError \<Rightarrow> res_end res
              | ProxyResponse chunks \<Rightarrow>
                  on_end (foldl (on_data JSON_parse)
                            \<lparr>st_buf = [], st_tc = 0, st_res = res\<rparr> chunks)))"

text \<open>
  The request handler given to \<^verbatim>\<open>http.createServer\<close>: the response as the handler
  leaves it. While \<^verbatim>\<open>await getFilteredModels()\<close> is pending the handler has set one
  header and has neither written nor ended the response, and it stays so when the promise
  is never settled.
\<close>

definition server ::
  "(string \<Rightarrow> jsval option) \<Rightarrow> limits_reply \<Rightarrow> proxy_reply \<Rightarrow> http_request \<Rightarrow> http_response" where
  "server JSON_parse limits proxy req =
     (let res = setHeader ''Access-Control-Allow-Origin'' ''*'' new_response;
          json = [(''Content-Type'', ''application/json'')]
      in if req_method req = ''OPTIONS'' then res_end (writeHead 200 [] res)
         else if req_path req = ''/health'' then
           res_end_json (JObj [(''status'', JStr ''ok'')]) (writeHead 200 json res)
         else if req_path req = ''/ListAvailableModels'' then
           (case getFilteredModels JSON_parse limits of
              None \<Rightarrow> res
            | Some modelIds \<Rightarrow>
                res_end_json (buildModelResponse modelIds) (writeHead 200 json res))
         else if req_path req = ''/getUsageLimits'' then
           res_end_json (JObj [(''chatCreditsUsed'', JNum ''0''),
                               (''chatCreditsTotal'', JNum ''999999'')])
             (writeHead 200 json res)
         else if req_path req = ''/generateAssistantResponse'' \<and> req_method req = ''POST'' then
           generateAssistantResponse JSON_parse proxy (req_body req) res
         else res_end (writeHead 404 [] res))"

text \<open>
  The body a client is to receive when the fallback list is served: the four fallback
  models in the order of \<^verbatim>\<open>FALLBACK_MODELS\<close>, the first of them as the default model,
  written out as the JSON text.
\<close>

definition fallback_body :: string where
  "fallback_body =
     ''{\"defaultModel\":{\"modelId\":\"claude-sonnet-4-5-thinking\"},\"models\":[''
     @ ''{\"modelId\":\"claude-sonnet-4-5-thinking\",\"modelName\":\"claude-sonnet-4-5-thinking\",''
     @ ''\"description\":\"claude-sonnet-4-5-thinking\",\"rateMultiplier\":0,\"rateUnit\":\"credit\",''
     @ ''\"supportedInputTypes\":[\"TEXT\"],''
     @ ''\"tokenLimits\":{\"maxInputTokens\":200000,\"maxOutputTokens\":8192}},''
     @ ''{\"modelId\":\"claude-sonnet-4-5\",\"modelName\":\"claude-sonnet-4-5\",''
     @ ''\"description\":\"claude-sonnet-4-5\",\"rateMultiplier\":0,\"rateUnit\":\"credit\",''
     @ ''\"supportedInputTypes\":[\"TEXT\"],''
     @ ''\"tokenLimits\":{\"maxInputTokens\":200000,\"maxOutputTokens\":8192}},''
     @ ''{\"modelId\":\"gemini-3-pro-high\",\"modelName\":\"gemini-3-pro-high\",''
     @ ''\"description\":\"gemini-3-pro-high\",\"rateMultiplier\":0,\"rateUnit\":\"credit\",''
     @ ''\"supportedInputTypes\":[\"TEXT\"],''
     @ ''\"tokenLimits\":{\"maxInputTokens\":200000,\"maxOutputTokens\":8192}},''
     @ ''{\"modelId\":\"gemini-3-flash\",\"modelName\":\"gemini-3-flash\",''
     @ ''\"description\":\"gemini-3-flash\",\"rateMultiplier\":0,\"rateUnit\":\"credit\",''
     @ ''\"supportedInputTypes\":[\"TEXT\"],''
     @ ''\"tokenLimits\":{\"maxInputTokens\":200000,\"maxOutputTokens\":8192}}''
     @ ''],\"nextToken\":null}''"

section \<open>The extension patcher\<close>

subsection \<open>The file system and the platform\<close>

text \<open>
  The patcher reaches the disk through \<^verbatim>\<open>exists\<close>, \<^verbatim>\<open>readTextFile\<close>, \<^verbatim>\<open>writeTextFile\<close>
  and \<^verbatim>\<open>copyFile\<close> of the Tauri file-system plugin, and the platform through
  \<^verbatim>\<open>navigator.platform\<close>, \<^verbatim>\<open>homeDir\<close> and \<^verbatim>\<open>join\<close>. These are library calls; the embedding
  passes the state they act on explicitly. A file system maps a path to what is there: a
  file with its bytes (a \<open>string\<close> holding one byte in each character), or a directory.
\<close>

datatype node = File string | Directory

type_synonym filesystem = "string \<rightharpoonup> node"

text \<open>The errors a call of the plugin throws.\<close>

datatype io_error = NotFound | IsADirectory

definition fs_exists :: "filesystem \<Rightarrow> string \<Rightarrow> bool" where
  "fs_exists fs path = (fs path \<noteq> None)"

subsection \<open>Files as text\<close>

text \<open>
  \<^verbatim>\<open>readTextFile\<close> reads the bytes of the file and returns
  \<^verbatim>\<open>new TextDecoder().decode(bytes)\<close>: the UTF-8 decoder of the Encoding Standard in its
  replacement mode, which never fails. A byte below \<open>0x80\<close> is a character. A lead byte
  \<open>0xC2\<close> to \<open>0xF4\<close> asks for one, two or three continuation bytes, the first of them within
  bounds that depend on the lead byte, the others within \<open>0x80\<close> to \<open>0xBF\<close>; if they all
  follow, the sequence is a character. Otherwise the lead byte and the continuation bytes
  accepted so far are replaced by one U+FFFD, and decoding goes on at the byte that did not
  fit (or stops at the end of the input). A byte that cannot start a sequence is replaced
  by U+FFFD. After decoding, a byte order mark U+FEFF at the very start is dropped.

  A text is held as the list of its UTF-8 code units throughout this development, so the
  decoder returns the code units of the decoded text, U+FFFD being \<open>EF BF BD\<close> and the byte
  order mark \<open>EF BB BF\<close>; and \<^verbatim>\<open>writeTextFile\<close>, which encodes the text as UTF-8, writes the
  code units as the bytes of the file. The literals the patcher looks for in a text are
  ASCII, which are the same code units in UTF-8 as in UTF-16, and the white space that
  \<^verbatim>\<open>\s\<close> stands for is matched as whole characters.
\<close>

text \<open>
  The number of continuation bytes a lead byte asks for (0 for a byte that is no lead
  byte), and the bounds of the first of them: \<open>bytes needed\<close>, \<open>lower boundary\<close> and
  \<open>upper boundary\<close> in the UTF-8 decoder of the Encoding Standard.
\<close>

definition bytes_needed :: "char \<Rightarrow> nat" where
  "bytes_needed b =
     (let n = of_char b :: nat
      in if 0xC2 \<le> n \<and> n \<le> 0xDF then 1
         else if 0xE0 \<le> n \<and> n \<le> 0xEF then 2
         else if 0xF0 \<le> n \<and> n \<le> 0xF4 then 3
         else 0)"

definition lower_boundary :: "char \<Rightarrow> nat" where
  "lower_boundary b = (if b = CHR 0xE0 then 0xA0 else if b = CHR 0xF0 then 0x90 else 0x80)"

definition upper_boundary :: "char \<Rightarrow> nat" where
  "upper_boundary b = (if b = CHR 0xED then 0x9F else if b = CHR 0xF4 then 0x8F else 0xBF)"

text \<open>
  How many of the \<open>n\<close> continuation bytes asked for are at the head of \<open>bs\<close>, the first
  within \<open>lower\<close> to \<open>upper\<close> and the following within \<open>0x80\<close> to \<open>0xBF\<close>.
\<close>

fun continuation :: "nat \<Rightarrow> nat \<Rightarrow> nat \<Rightarrow> string \<Rightarrow> nat" where
  "continuation n lower upper [] = 0"
| "continuation n lower upper (b # bs) =
     (if n \<noteq> 0 \<and> lower \<le> (of_char b :: nat) \<and> (of_char b :: nat) \<le> upper
      then Suc (continuation (n - 1) 0x80 0xBF bs) else 0)"

definition replacement_character :: string where
  "replacement_character = [CHR 0xEF, CHR 0xBF, CHR 0xBD]"

definition ascii :: "char \<Rightarrow> bool" where
  "ascii c = ((of_char c :: nat) < 0x80)"

function utf8_decode :: "string \<Rightarrow> string" where
  "utf8_decode [] = []"
| "utf8_decode (b # bs) =
     (if ascii b then b # utf8_decode bs
      else (let seen = continuation (bytes_needed b) (lower_boundary b) (upper_boundary b) bs
            in if bytes_needed b \<noteq> 0 \<and> seen = bytes_needed b
               then b # take seen bs @ utf8_decode (drop seen bs)
               else replacement_character @ utf8_decode (drop seen bs)))"
  by pat_completeness auto
termination
  by (relation "measure length") (auto simp: less_Suc_eq_le)

definition byte_order_mark :: string where
  "byte_order_mark = [CHR 0xEF, CHR 0xBB, CHR 0xBF]"

definition TextDecoder_decode :: "string \<Rightarrow> string" where
  "TextDecoder_decode bytes =
     (let decoded = utf8_decode bytes
      in if prefix byte_order_mark decoded then drop 3 decoded else decoded)"

subsection \<open>The calls of the plugin\<close>

definition readTextFile :: "filesystem \<Rightarrow> string \<Rightarrow> io_error + string" where
  "readTextFile fs path =
     (case fs path of
        Some (File bytes) \<Rightarrow> Inr (TextDecoder_decode bytes)
      | Some Directory \<Rightarrow> Inl IsADirectory
      | None \<Rightarrow> Inl NotFound)"

definition writeTextFile :: "filesystem \<Rightarrow> string \<Rightarrow> string \<Rightarrow> io_error + filesystem" where
  "writeTextFile fs path content =
     (case fs path of
        Some Directory \<Rightarrow> Inl IsADirectory
      | _ \<Rightarrow> Inr (fs(path \<mapsto> File content)))"

definition copyFile :: "filesystem \<Rightarrow> string \<Rightarrow> string \<Rightarrow> io_error + filesystem" where
  "copyFile fs fromPath toPath =
     (case fs fromPath of
        None \<Rightarrow> Inl NotFound
      | Some Directory \<Rightarrow> Inl IsADirectory
      | Some file \<Rightarrow> (case fs toPath of
                       Some Directory \<Rightarrow> Inl IsADirectory
                     | _ \<Rightarrow> Inr (fs(toPath \<mapsto> file))))"

text \<open>
  The platform: the text of \<^verbatim>\<open>navigator.platform\<close>, the result of \<^verbatim>\<open>homeDir()\<close>
  (\<open>None\<close> when it throws) and the separator \<^verbatim>\<open>join\<close> puts between path components.
\<close>

record environment =
  env_platform :: string
  env_home :: "string option"
  env_separator :: string

definition path_join :: "environment \<Rightarrow> string list \<Rightarrow> string" where
  "path_join env parts = join_with (env_separator env) parts"

text \<open>\<^verbatim>\<open>toLowerCase\<close>, on the letters A to Z.\<close>

definition to_lower :: "char \<Rightarrow> char" where
  "to_lower c =
     (case map_of (zip ''ABCDEFGHIJKLMNOPQRSTUVWXYZ'' ''abcdefghijklmnopqrstuvwxyz'') c of
        None \<Rightarrow> c
      | Some l \<Rightarrow> l)"

definition toLowerCase :: "string \<Rightarrow> string" where
  "toLowerCase s = map to_lower s"

definition isWindows :: "environment \<Rightarrow> bool" where
  "isWindows env = js_includes (toLowerCase (env_platform env)) ''win''"

definition isMac :: "environment \<Rightarrow> bool" where
  "isMac env = js_includes (toLowerCase (env_platform env)) ''mac''"

subsection \<open>Locating the extension\<close>

definition possiblePaths :: "environment \<Rightarrow> string \<Rightarrow> string list" where
  "possiblePaths env home =
     (if isWindows env then
        [path_join env [home, ''AppData'', ''Local'', ''Programs'', ''Kiro'']]
      else if isMac env then
        [''/Applications/Kiro.app'', path_join env [home, ''Applications'', ''Kiro.app'']]
      else
        [path_join env [home, ''.local'', ''share'', ''Kiro''], ''/opt/Kiro'',
         path_join env [home, ''snap'', ''kiro'', ''current'']])"

text \<open>\<^verbatim>\<open>getKiroPath\<close>: the first candidate that exists; \<^verbatim>\<open>null\<close> when \<^verbatim>\<open>homeDir\<close> throws.\<close>

definition getKiroPath :: "environment \<Rightarrow> filesystem \<Rightarrow> string option" where
  "getKiroPath env fs =
     (case env_home env of
        None \<Rightarrow> None
      | Some home \<Rightarrow> find (fs_exists fs) (possiblePaths env home))"

definition getExtensionPath :: "environment \<Rightarrow> filesystem \<Rightarrow> string option" where
  "getExtensionPath env fs =
     (case getKiroPath env fs of
        None \<Rightarrow> None
      | Some kiroPath \<Rightarrow>
          Some (if isWindows env then
                  path_join env [kiroPath, ''resources'', ''app'', ''extensions'',
                                 ''kiro.kiro-agent'', ''dist'', ''extension.js'']
                else if isMac env then
                  path_join env [kiroPath, ''Contents'', ''Resources'', ''app'', ''extensions'',
                                 ''kiro.kiro-agent'', ''dist'', ''extension.js'']
                else
                  path_join env [kiroPath, ''resources'', ''app'', ''extensions'',
                                 ''kiro.kiro-agent'', ''dist'', ''extension.js'']))"

definition getValidExtensionPath :: "environment \<Rightarrow> filesystem \<Rightarrow> string option" where
  "getValidExtensionPath env fs =
     (case getExtensionPath env fs of
        None \<Rightarrow> None
      | Some path \<Rightarrow> if fs_exists fs path then Some path else None)"

subsection \<open>The two patterns\<close>

text \<open>
  A pattern is modelled by its matcher: the length of the match that starts at the head
  of the text, if there is one. Both patterns are a chain of literals and one greedy
  repetition whose characters cannot start the literal that follows, so the longest run of
  the repetition is the only one that can lead to a match.
\<close>

definition strip_prefix :: "string \<Rightarrow> string \<Rightarrow> string option" where
  "strip_prefix p s = (if prefix p s then Some (drop (length p) s) else None)"

text \<open>The class \<^verbatim>\<open>[a-z0-9-]\<close>.\<close>

definition is_region_char :: "char \<Rightarrow> bool" where
  "is_region_char c =
     ((97 \<le> (of_char c :: nat) \<and> (of_char c :: nat) \<le> 122)
      \<or> (48 \<le> (of_char c :: nat) \<and> (of_char c :: nat) \<le> 57)
      \<or> c = CHR ''-'')"

text \<open>\<^verbatim>\<open>/https:\/\/q\.[a-z0-9-]+\.amazonaws\.com/\<close> at the head of the text.\<close>

definition match_host :: "string \<Rightarrow> nat option" where
  "match_host s =
     (case strip_prefix ''https://q.'' s of
        None \<Rightarrow> None
      | Some rest \<Rightarrow>
          (let region = takeWhile is_region_char rest
           in if region = [] then None
              else (case strip_prefix ''.amazonaws.com'' (dropWhile is_region_char rest) of
                      None \<Rightarrow> None
                    | Some _ \<Rightarrow> Some (10 + length region + 14))))"

text \<open>
  The class \<^verbatim>\<open>\s\<close>: the white space and line terminator code points of ECMAScript, each in
  UTF-8 (tab, line feed, vertical tab, form feed, carriage return, space, U+00A0, U+1680,
  U+2000 to U+200A, U+2028, U+2029, U+202F, U+205F, U+3000 and U+FEFF).
\<close>

definition white_space :: "string list" where
  "white_space =
     [[CHR 0x09], [CHR 0x0A], [CHR 0x0B], [CHR 0x0C], [CHR 0x0D], [CHR 0x20],
      [CHR 0xC2, CHR 0xA0], [CHR 0xE1, CHR 0x9A, CHR 0x80],
      [CHR 0xE2, CHR 0x80, CHR 0x80], [CHR 0xE2, CHR 0x80, CHR 0x81],
      [CHR 0xE2, CHR 0x80, CHR 0x82], [CHR 0xE2, CHR 0x80, CHR 0x83],
      [CHR 0xE2, CHR 0x80, CHR 0x84], [CHR 0xE2, CHR 0x80, CHR 0x85],
      [CHR 0xE2, CHR 0x80, CHR 0x86], [CHR 0xE2, CHR 0x80, CHR 0x87],
      [CHR 0xE2, CHR 0x80, CHR 0x88], [CHR 0xE2, CHR 0x80, CHR 0x89],
      [CHR 0xE2, CHR 0x80, CHR 0x8A], [CHR 0xE2, CHR 0x80, CHR 0xA8],
      [CHR 0xE2, CHR 0x80, CHR 0xA9], [CHR 0xE2, CHR 0x80, CHR 0xAF],
      [CHR 0xE2, CHR 0x81, CHR 0x9F], [CHR 0xE3, CHR 0x80, CHR 0x80],
      [CHR 0xEF, CHR 0xBB, CHR 0xBF]]"

text \<open>The number of code units of the white space character at the head, or 0.\<close>

definition space_length :: "string \<Rightarrow> nat" where
  "space_length s = (case find (\<lambda>w. prefix w s) white_space of None \<Rightarrow> 0 | Some w \<Rightarrow> length w)"

text \<open>\<^verbatim>\<open>\s*\<close>: what is left after the longest run of white space.\<close>

function skip_spaces :: "string \<Rightarrow> string" where
  "skip_spaces s = (if space_length s = 0 then s else skip_spaces (drop (space_length s) s))"
  by pat_completeness auto
termination
proof (relation "measure length")
  fix s
  assume nz: "space_length s \<noteq> 0"
  then obtain w where w: "find (\<lambda>w. prefix w s) white_space = Some w"
    and l: "space_length s = length w"
    by (auto simp: space_length_def split: option.splits)
  from w have "prefix w s"
    by (auto simp: find_Some_iff)
  then have "length w \<le> length s"
    by (rule prefix_length_le)
  with nz l show "(drop (space_length s) s, s) \<in> measure length"
    by (cases w) simp_all
qed simp

text \<open>\<^verbatim>\<open>/endpoint:\s*"https:\/\/q\.[a-z0-9-]+\.amazonaws\.com"/\<close> at the head of the text.\<close>

definition match_endpoint :: "string \<Rightarrow> nat option" where
  "match_endpoint s =
     (case strip_prefix ''endpoint:'' s of
        None \<Rightarrow> None
      | Some rest \<Rightarrow>
          (case strip_prefix [CHR 0x22] (skip_spaces rest) of
             None \<Rightarrow> None
           | Some url \<Rightarrow>
               (case match_host url of
                  None \<Rightarrow> None
                | Some n \<Rightarrow>
                    (case strip_prefix [CHR 0x22] (drop n url) of
                       None \<Rightarrow> None
                     | Some _ \<Rightarrow> Some (length s - length url + n + 1)))))"

text \<open>\<^verbatim>\<open>pattern.test(content)\<close> on a global pattern whose \<^verbatim>\<open>lastIndex\<close> is 0.\<close>

fun regex_test :: "(string \<Rightarrow> nat option) \<Rightarrow> string \<Rightarrow> bool" where
  "regex_test m [] = (m [] \<noteq> None)"
| "regex_test m (c # cs) = (m (c # cs) \<noteq> None \<or> regex_test m cs)"

text \<open>
  \<^verbatim>\<open>content.replace(pattern, replacement)\<close> for a global pattern and a replacement without
  \<^verbatim>\<open>$\<close>: matches are taken from left to right, the search going on behind each match (one
  character further after an empty match).
\<close>

function replace_all :: "(string \<Rightarrow> nat option) \<Rightarrow> string \<Rightarrow> string \<Rightarrow> string" where
  "replace_all m replacement [] = (case m [] of None \<Rightarrow> [] | Some _ \<Rightarrow> replacement)"
| "replace_all m replacement (c # cs) =
     (case m (c # cs) of
        None \<Rightarrow> c # replace_all m replacement cs
      | Some n \<Rightarrow>
          if n = 0 then replacement @ c # replace_all m replacement cs
          else replacement @ replace_all m replacement (drop (n - 1) cs))"
  by pat_completeness auto
termination
  by (relation "measure (\<lambda>(m, replacement, s). length s)") auto

subsection \<open>\<^verbatim>\<open>isKiroPatched\<close>, \<^verbatim>\<open>patchKiro\<close> and \<^verbatim>\<open>restoreKiro\<close>\<close>

text \<open>
  The \<open>error\<close> of a result is a message of the patcher's own, or \<^verbatim>\<open>String(error)\<close> for an
  error that a call of the plugin threw.
\<close>

datatype error_text = Message string | String_of io_error

record PatchResult =
  success :: bool
  error :: "error_text option"

definition succeeded :: PatchResult where
  "succeeded = \<lparr>success = True, error = None\<rparr>"

definition failed :: "string \<Rightarrow> PatchResult" where
  "failed reason = \<lparr>success = False, error = Some (Message reason)\<rparr>"

definition threw :: "io_error \<Rightarrow> PatchResult" where
  "threw e = \<lparr>success = False, error = Some (String_of e)\<rparr>"

definition isKiroPatched :: "environment \<Rightarrow> filesystem \<Rightarrow> bool" where
  "isKiroPatched env fs =
     (case getValidExtensionPath env fs of
        None \<Rightarrow> False
      | Some extensionPath \<Rightarrow>
          (case readTextFile fs extensionPath of
             Inl e \<Rightarrow> False
           | Inr content \<Rightarrow>
               js_includes content ''localhost:9980''
               \<and> \<not> js_includes content ''https://q.us-east-1.amazonaws.com''))"

text \<open>The patterns of \<^verbatim>\<open>patchKiro\<close>, each with its replacement.\<close>

definition patterns :: "((string \<Rightarrow> nat option) \<times> string) list" where
  "patterns =
     [(match_endpoint, ''endpoint: \"http://localhost:9980\"''),
      (match_host, ''http://localhost:9980'')]"

text \<open>One turn of \<^verbatim>\<open>for (const pattern of patterns)\<close> on \<open>(content, patched)\<close>.\<close>

definition apply_pattern ::
  "string \<times> bool \<Rightarrow> (string \<Rightarrow> nat option) \<times> string \<Rightarrow> string \<times> bool" where
  "apply_pattern state pattern =
     (if regex_test (fst pattern) (fst state)
      then (replace_all (fst pattern) (snd pattern) (fst state), True)
      else state)"

definition patchKiro :: "environment \<Rightarrow> filesystem \<Rightarrow> PatchResult \<times> filesystem" where
  "patchKiro env fs =
     (case getValidExtensionPath env fs of
        None \<Rightarrow> (failed ''Kiro extension not found'', fs)
      | Some extensionPath \<Rightarrow>
          (let backupPath = extensionPath @ ''.backup''
           in case (if \<not> fs_exists fs backupPath then copyFile fs extensionPath backupPath
                    else Inr fs) of
                Inl e \<Rightarrow> (threw e, fs)
              | Inr fs \<Rightarrow>
                  (case readTextFile fs extensionPath of
                     Inl e \<Rightarrow> (threw e, fs)
                   | Inr content \<Rightarrow>
                       (let (content, patched) = foldl apply_pattern (content, False) patterns
                        in if \<not> patched \<and> isKiroPatched env fs then (succeeded, fs)
                           else if \<not> patched then (failed ''No patchable patterns found'', fs)
                           else (case writeTextFile fs extensionPath content of
                                   Inl e \<Rightarrow> (threw e, fs)
                                 | Inr fs \<Rightarrow> (succeeded, fs))))))"

definition restoreKiro :: "environment \<Rightarrow> filesystem \<Rightarrow> PatchResult \<times> filesystem" where
  "restoreKiro env fs =
     (case getExtensionPath env fs of
        None \<Rightarrow> (failed ''Kiro extension not found'', fs)
      | Some extensionPath \<Rightarrow>
          (let backupPath = extensionPath @ ''.backup''
           in if \<not> fs_exists fs backupPath then (failed ''No backup found'', fs)
              else (case readTextFile fs backupPath of
                      Inl e \<Rightarrow> (threw e, fs)
                    | Inr backupContent \<Rightarrow>
                        (case writeTextFile fs extensionPath backupContent of
                           Inl e \<Rightarrow> (threw e, fs)
                         | Inr fs \<Rightarrow> (succeeded, fs)))))"

chapter \<open>Properties\<close>

section \<open>CRC-32: the table against the bitwise reference\<close>

lemma crc_step_reference: "crc_step = reference_shift"
proof
  fix c :: u32
  have "(c AND 1 \<noteq> 0) = bit c 0"
    by (simp add: and_one_eq bit_0 odd_iff_mod_2_eq_one)
  then show "crc_step c = reference_shift c"
    by (simp add: crc_step_def reference_shift_def xor.commute del: bit_0)
qed

lemma reference_shift_alt:
  "reference_shift c = drop_bit 1 c XOR (if bit c 0 then 0xEDB88320 else 0)"
  by (simp add: reference_shift_def del: bit_0)

lemma reference_shift_xor:
  "reference_shift (a XOR b) = reference_shift a XOR reference_shift b"
  unfolding reference_shift_alt
  by (simp add: bit_xor_iff drop_bit_xor xor.assoc xor.left_commute del: bit_0)

lemma reference_shifts_xor:
  "(reference_shift ^^ n) (a XOR b) = (reference_shift ^^ n) a XOR (reference_shift ^^ n) b"
  by (induction n) (simp_all add: reference_shift_xor)

lemma reference_shifts_high:
  "take_bit n c = 0 \<Longrightarrow> (reference_shift ^^ n) c = drop_bit n c"
proof (induction n arbitrary: c)
  case 0
  then show ?case by simp
next
  case (Suc n)
  have "\<not> bit (take_bit (Suc n) c) 0"
    using Suc.prems by (simp del: bit_0)
  then have "\<not> bit c 0"
    by (simp add: bit_take_bit_iff del: bit_0)
  then have st: "reference_shift c = drop_bit 1 c"
    by (simp add: reference_shift_alt del: bit_0)
  have "take_bit n (drop_bit 1 c) = 0"
    using Suc.prems by (simp add: take_bit_drop_bit)
  then have "(reference_shift ^^ n) (drop_bit 1 c) = drop_bit n (drop_bit 1 c)"
    by (rule Suc.IH)
  then show ?case
    by (simp add: funpow_swap1 st)
qed

lemma low_byte_less: "unat ((x :: u32) AND 0xFF) < 256"
proof -
  have "x AND 0xFF = take_bit 8 x"
    by (simp add: take_bit_eq_mask mask_eq_exp_minus_1)
  moreover have "unat (take_bit 8 x) < 2 ^ 8"
    unfolding unsigned_take_bit_eq by (rule take_bit_nat_less_exp)
  ultimately show ?thesis by simp
qed

lemma CRC32_TABLE_nth:
  "CRC32_TABLE ! unat ((x :: u32) AND 0xFF) = (reference_shift ^^ 8) (x AND 0xFF)"
  using low_byte_less [of x] by (simp add: CRC32_TABLE_def crc_step_reference)

lemma low_high_split: "(x :: u32) = (x AND 0xFF) XOR push_bit 8 (drop_bit 8 x)"
proof -
  have m: "(0xFF :: u32) = mask 8"
    by (simp add: mask_eq_exp_minus_1)
  show ?thesis
    unfolding m by (rule bit_word_eqI) (auto simp: bit_simps)
qed

lemma crc32_update_reference: "crc32_update crc b = reference_byte crc b"
proof -
  define x where "x = crc XOR ucast b"
  have hi: "drop_bit 8 x = drop_bit 8 crc"
    unfolding x_def by (rule bit_word_eqI) (auto simp: bit_simps dest: bit_imp_le_length)
  have "take_bit 8 (push_bit 8 (drop_bit 8 x)) = 0"
    by (simp add: take_bit_push_bit)
  moreover have "drop_bit 8 (push_bit 8 (drop_bit 8 x)) = drop_bit 8 x"
    by (rule bit_word_eqI) (auto simp: bit_simps dest: bit_imp_le_length)
  ultimately have h: "(reference_shift ^^ 8) (push_bit 8 (drop_bit 8 x)) = drop_bit 8 x"
    by (simp add: reference_shifts_high)
  have "(reference_shift ^^ 8) x
        = (reference_shift ^^ 8) ((x AND 0xFF) XOR push_bit 8 (drop_bit 8 x))"
    using low_high_split [of x] by simp
  also have "\<dots> = (reference_shift ^^ 8) (x AND 0xFF) XOR drop_bit 8 x"
    by (simp only: reference_shifts_xor h)
  finally show ?thesis
    by (simp add: crc32_update_def reference_byte_def CRC32_TABLE_nth hi flip: x_def)
qed

text \<open>
  C3. For every byte sequence the table-driven \<open>crc32\<close> of the codec returns the value
  of the bitwise reference CRC-32 (reflected polynomial \<open>0xEDB88320\<close>, initial register
  \<open>0xFFFFFFFF\<close>, final XOR \<open>0xFFFFFFFF\<close>).
\<close>

theorem crc32_is_reference_crc32: "crc32 data = crc32_reference data"
proof -
  have "crc32_update = reference_byte"
    by (intro ext) (rule crc32_update_reference)
  then show ?thesis
    by (simp add: crc32_def crc32_reference_def)
qed

section \<open>The encoder's frames\<close>

lemma length_be16 [simp]: "length (be16 v) = 2"
  by (simp add: be16_def)

lemma length_be32 [simp]: "length (be32 v) = 4"
  by (simp add: be32_def)

lemma length_utf8 [simp]: "length (utf8 s) = length s"
  by (simp add: utf8_def)

lemma unat_byte_of_nat: "unat (of_nat n :: byte) = n mod 256"
  by (simp add: unat_of_nat)

lemma be32_value:
  assumes "(v :: nat) < 4294967296"
  shows "(v div 16777216) mod 256 * 16777216 + (v div 65536) mod 256 * 65536
         + (v div 256) mod 256 * 256 + v mod 256 = v"
proof -
  have a: "v div 16777216 mod 256 = v div 16777216"
    using assms by (simp add: less_mult_imp_div_less)
  have b: "v div 65536 div 256 = v div 16777216" and c: "v div 256 div 256 = v div 65536"
    by (simp_all add: div_mult2_eq [symmetric])
  have "v = v div 256 * 256 + v mod 256"
    by simp
  also have "v div 256 = v div 65536 * 256 + v div 256 mod 256"
    using div_mult_mod_eq [of "v div 256" 256] by (simp only: c)
  also have "v div 65536 = v div 16777216 * 256 + v div 65536 mod 256"
    using div_mult_mod_eq [of "v div 65536" 256] by (simp only: b)
  finally show ?thesis
    by (simp add: a algebra_simps)
qed

lemma readUInt32BE_be32:
  assumes "v < 4294967296"
  shows "readUInt32BE (pre @ be32 v @ post) (length pre) = v"
proof -
  have "readUInt32BE (pre @ be32 v @ post) (length pre)
        = (v div 16777216) mod 256 * 16777216 + (v div 65536) mod 256 * 65536
          + (v div 256) mod 256 * 256 + v mod 256"
    by (simp add: readUInt32BE_def be32_def nth_append unat_byte_of_nat)
  also have "\<dots> = v"
    by (rule be32_value [OF assms])
  finally show ?thesis .
qed

lemma and_then_Inr:
  "and_then m f = Inr y \<longleftrightarrow> (\<exists>x. m = Inr x \<and> f x = Inr y)"
  by (cases m) (simp_all add: and_then_def)

lemma writeUInt8_Inr:
  "writeUInt8 v off buf = Inr r \<longleftrightarrow>
     v < 256 \<and> off + 1 \<le> length buf \<and> r = take off buf @ [of_nat v] @ drop (off + 1) buf"
  by (auto simp: writeUInt8_def overwrite_def)

lemma writeUInt16BE_Inr:
  "writeUInt16BE v off buf = Inr r \<longleftrightarrow>
     v < 65536 \<and> off + 2 \<le> length buf \<and> r = take off buf @ be16 v @ drop (off + 2) buf"
  by (auto simp: writeUInt16BE_def overwrite_def)

lemma writeUInt32BE_Inr:
  "writeUInt32BE v off buf = Inr r \<longleftrightarrow>
     v < 4294967296 \<and> off + 4 \<le> length buf \<and> r = take off buf @ be32 v @ drop (off + 4) buf"
  by (auto simp: writeUInt32BE_def overwrite_def)

lemma Buffer_copy_fits:
  "start + length source \<le> length target \<Longrightarrow>
   Buffer_copy source target start = take start target @ source @ drop (start + length source) target"
  by (simp add: Buffer_copy_def overwrite_def)

lemma encodeStringHeader_Inr:
  "encodeStringHeader name val = Inr h \<longleftrightarrow>
     length name < 256 \<and> length val < 65536 \<and> h = header_bytes name val"
  by (auto simp: encodeStringHeader_def Let_def and_then_Inr writeUInt8_Inr writeUInt16BE_Inr
      Buffer_copy_fits Buffer_alloc_def header_bytes_def)

lemma unat_u32_less: "unat (c :: u32) < 4294967296"
  using unsigned_less [of c, where 'a = nat] by simp

lemma write_frame_too_long:
  assumes "\<not> 12 + length hs + length pb + 4 < 4294967296"
  shows "write_frame hs pb = Inl RangeError"
  using assms by (simp add: write_frame_def Let_def writeUInt32BE_def and_then_def)

lemma write_frame_fits:
  assumes nb: "12 + length hs + length pb + 4 < 4294967296"
  shows "write_frame hs pb = Inr (frame_bytes hs pb)"
proof -
  define n where "n = 12 + length hs + length pb + 4"
  define pre where "pre = be32 n @ be32 (length hs) @ be32 (unat (crc32 (be32 n @ be32 (length hs))))"
  have lp: "length pre = 12"
    by (simp add: pre_def)
  have m1: "writeUInt32BE n 0 (Buffer_alloc n) = Inr (be32 n @ replicate (n - 4) 0)"
    using nb by (simp add: writeUInt32BE_def overwrite_def Buffer_alloc_def n_def)
  have m2: "writeUInt32BE (length hs) 4 (be32 n @ replicate (n - 4) 0)
            = Inr (be32 n @ be32 (length hs) @ replicate (n - 8) 0)"
    using nb by (simp add: writeUInt32BE_def overwrite_def n_def)
  have t8: "take 8 (be32 n @ be32 (length hs) @ replicate (n - 8) 0) = be32 n @ be32 (length hs)"
    by simp
  have m3: "writeUInt32BE (unat (crc32 (be32 n @ be32 (length hs)))) 8
              (be32 n @ be32 (length hs) @ replicate (n - 8) 0)
            = Inr (pre @ replicate (n - 12) 0)"
    using unat_u32_less by (simp add: writeUInt32BE_def overwrite_def n_def pre_def)
  have m4: "Buffer_copy hs (pre @ replicate (n - 12) 0) 12 = pre @ hs @ replicate (n - 12 - length hs) 0"
    by (subst Buffer_copy_fits) (simp_all add: lp n_def)
  have m5: "Buffer_copy pb (pre @ hs @ replicate (n - 12 - length hs) 0) (12 + length hs)
            = pre @ hs @ pb @ replicate 4 0"
    by (subst Buffer_copy_fits) (simp_all add: lp n_def)
  have t5: "take (12 + length hs + length pb) (pre @ hs @ pb @ replicate 4 0) = pre @ hs @ pb"
    by (simp add: lp)
  have m6: "writeUInt32BE (unat (crc32 (pre @ hs @ pb))) (12 + length hs + length pb)
              (pre @ hs @ pb @ replicate 4 0)
            = Inr (pre @ hs @ pb @ be32 (unat (crc32 (pre @ hs @ pb))))"
    using unat_u32_less by (simp add: writeUInt32BE_def overwrite_def lp)
  have "write_frame hs pb = Inr (pre @ hs @ pb @ be32 (unat (crc32 (pre @ hs @ pb))))"
    unfolding write_frame_def Let_def n_def [symmetric]
    by (simp only: m1 m2 t8 m3 m4 m5 t5 m6 and_then_def sum.case)
  also have "pre @ hs @ pb @ be32 (unat (crc32 (pre @ hs @ pb))) = frame_bytes hs pb"
    by (simp add: frame_bytes_def Let_def pre_def n_def)
  finally show ?thesis .
qed

lemma encodeEventStreamMessage_write_frame:
  "encodeEventStreamMessage eventType payload =
     and_then (encodeStringHeader '':event-type'' eventType) (\<lambda>h1.
     and_then (encodeStringHeader '':content-type'' ''application/json'') (\<lambda>h2.
     and_then (encodeStringHeader '':message-type'' ''event'') (\<lambda>h3.
     and_then (case JSON_stringify payload of None \<Rightarrow> Inl TypeError
               | Some json \<Rightarrow> Inr (utf8 json)) (\<lambda>payloadBuffer.
     write_frame (concat [h1, h2, h3]) payloadBuffer))))"
  unfolding encodeEventStreamMessage_def write_frame_def Let_def by (rule refl)

lemma fixed_headers:
  "encodeStringHeader '':content-type'' ''application/json''
     = Inr (header_bytes '':content-type'' ''application/json'')"
  "encodeStringHeader '':message-type'' ''event'' = Inr (header_bytes '':message-type'' ''event'')"
  by (simp_all add: encodeStringHeader_Inr)

lemma length_header_bytes: "length (header_bytes name val) = 4 + length name + length val"
  by (simp add: header_bytes_def)

lemma length_message_headers: "length (message_headers eventType) = 70 + length eventType"
  by (simp add: message_headers_def length_header_bytes)

lemma encodeEventStreamMessage_Inr:
  "encodeEventStreamMessage eventType payload = Inr message \<longleftrightarrow>
     length eventType < 65536 \<and>
     (\<exists>json. JSON_stringify payload = Some json
        \<and> 86 + length eventType + length json < 4294967296
        \<and> message = frame_bytes (message_headers eventType) (utf8 json))"
proof (cases "JSON_stringify payload")
  case None
  then show ?thesis
    by (simp add: encodeEventStreamMessage_write_frame and_then_Inr)
next
  case (Some json)
  show ?thesis
  proof (cases "86 + length eventType + length json < 4294967296")
    case True
    then have "write_frame (message_headers eventType) (utf8 json)
               = Inr (frame_bytes (message_headers eventType) (utf8 json))"
      by (intro write_frame_fits) (simp add: length_message_headers)
    then show ?thesis
      using Some True
      by (auto simp: encodeEventStreamMessage_write_frame and_then_Inr fixed_headers
          encodeStringHeader_Inr message_headers_def)
  next
    case False
    then have "write_frame (message_headers eventType) (utf8 json) = Inl RangeError"
      by (intro write_frame_too_long) (simp add: length_message_headers)
    then show ?thesis
      using Some False
      by (auto simp: encodeEventStreamMessage_write_frame and_then_Inr fixed_headers
          encodeStringHeader_Inr message_headers_def)
  qed
qed

lemma length_frame_bytes:
  "length (frame_bytes hs pb) = 12 + length hs + length pb + 4"
  by (simp add: frame_bytes_def Let_def)

lemma frame_bytes_total:
  assumes "12 + length hs + length pb + 4 < 4294967296"
  shows "readUInt32BE (frame_bytes hs pb) 0 = 12 + length hs + length pb + 4"
  using readUInt32BE_be32 [OF assms, of "[]"] by (simp add: frame_bytes_def Let_def)

lemma frame_bytes_prelude_crc:
  "readUInt32BE (frame_bytes hs pb) 8 = unat (crc32 (take 8 (frame_bytes hs pb)))"
proof -
  define prelude where "prelude = be32 (12 + length hs + length pb + 4) @ be32 (length hs)"
  have l: "length prelude = 8"
    by (simp add: prelude_def)
  have f: "frame_bytes hs pb = prelude @ be32 (unat (crc32 prelude))
             @ (hs @ pb @ be32 (unat (crc32 (prelude @ be32 (unat (crc32 prelude)) @ hs @ pb))))"
    by (simp add: frame_bytes_def Let_def prelude_def)
  have "readUInt32BE (frame_bytes hs pb) (length prelude) = unat (crc32 prelude)"
    unfolding f by (rule readUInt32BE_be32) (rule unat_u32_less)
  moreover have "take 8 (frame_bytes hs pb) = prelude"
    unfolding f using l by simp
  ultimately show ?thesis
    by (simp add: l)
qed

lemma frame_bytes_message_crc:
  "readUInt32BE (frame_bytes hs pb) (length (frame_bytes hs pb) - 4)
     = unat (crc32 (take (length (frame_bytes hs pb) - 4) (frame_bytes hs pb)))"
proof -
  define body where "body =
     be32 (12 + length hs + length pb + 4) @ be32 (length hs)
     @ be32 (unat (crc32 (be32 (12 + length hs + length pb + 4) @ be32 (length hs)))) @ hs @ pb"
  have f: "frame_bytes hs pb = body @ be32 (unat (crc32 body)) @ []"
    by (simp add: frame_bytes_def Let_def body_def)
  have l: "length (frame_bytes hs pb) - 4 = length body"
    by (simp add: f)
  have "readUInt32BE (frame_bytes hs pb) (length body) = unat (crc32 body)"
    unfolding f by (rule readUInt32BE_be32) (rule unat_u32_less)
  moreover have "take (length body) (frame_bytes hs pb) = body"
    by (simp add: f)
  ultimately show ?thesis
    by (simp add: l)
qed

lemma encoded_message_consistent:
  assumes "encodeEventStreamMessage eventType payload = Inr message"
  shows "\<exists>h1 h2 h3 json.
           encodeStringHeader '':event-type'' eventType = Inr h1
         \<and> encodeStringHeader '':content-type'' ''application/json'' = Inr h2
         \<and> encodeStringHeader '':message-type'' ''event'' = Inr h3
         \<and> JSON_stringify payload = Some json
         \<and> length message = 12 + (length h1 + length h2 + length h3) + length (utf8 json) + 4
         \<and> readUInt32BE message 0 = length message
         \<and> readUInt32BE message 8 = unat (crc32 (take 8 message))
         \<and> readUInt32BE message (length message - 4)
             = unat (crc32 (take (length message - 4) message))"
proof -
  from assms obtain json where
    et: "length eventType < 65536" and
    json: "JSON_stringify payload = Some json" and
    nb: "86 + length eventType + length json < 4294967296" and
    m: "message = frame_bytes (message_headers eventType) (utf8 json)"
    by (auto simp: encodeEventStreamMessage_Inr)
  have h1: "encodeStringHeader '':event-type'' eventType = Inr (header_bytes '':event-type'' eventType)"
    using et by (simp add: encodeStringHeader_Inr)
  have len: "length message
             = 12 + (length (header_bytes '':event-type'' eventType)
                     + length (header_bytes '':content-type'' ''application/json'')
                     + length (header_bytes '':message-type'' ''event'')) + length (utf8 json) + 4"
    by (simp add: m length_frame_bytes message_headers_def)
  have tot: "readUInt32BE message 0 = length message"
    unfolding m length_frame_bytes
    by (rule frame_bytes_total) (use nb in \<open>simp add: length_message_headers\<close>)
  show ?thesis
    using h1 fixed_headers json len tot frame_bytes_prelude_crc frame_bytes_message_crc
    unfolding m by blast
qed

lemma encodeEventStreamMessage_returns:
  "(\<exists>message. encodeEventStreamMessage eventType payload = Inr message) \<longleftrightarrow>
     length eventType < 65536
     \<and> (\<exists>json. JSON_stringify payload = Some json
           \<and> 86 + length eventType + length json < 4294967296)"
  by (auto simp: encodeEventStreamMessage_Inr)

text \<open>
  C1. \<open>encodeEventStreamMessage\<close> returns a message exactly when the event type has at
  most 65535 bytes, the payload serializes and the message stays below \<open>2^32\<close> bytes
  (otherwise Node throws). Every message it returns is self-consistent: its first four
  bytes are the big-endian total length, which is the actual length of the message and
  equals 12 + the lengths of the three encoded headers + the length of the UTF-8 JSON
  payload + 4; bytes 9 to 12 are the CRC-32 of the first eight bytes; the last four bytes
  are the CRC-32 of all bytes before them.
\<close>

theorem encodeEventStreamMessage_self_consistent:
  "((\<exists>message. encodeEventStreamMessage eventType payload = Inr message) \<longleftrightarrow>
      length eventType < 65536
      \<and> (\<exists>json. JSON_stringify payload = Some json
            \<and> 86 + length eventType + length json < 4294967296))
   \<and> (\<forall>message. encodeEventStreamMessage eventType payload = Inr message \<longrightarrow>
        (\<exists>h1 h2 h3 json.
           encodeStringHeader '':event-type'' eventType = Inr h1
         \<and> encodeStringHeader '':content-type'' ''application/json'' = Inr h2
         \<and> encodeStringHeader '':message-type'' ''event'' = Inr h3
         \<and> JSON_stringify payload = Some json
         \<and> length message = 12 + (length h1 + length h2 + length h3) + length (utf8 json) + 4
         \<and> readUInt32BE message 0 = length message
         \<and> readUInt32BE message 8 = unat (crc32 (take 8 message))
         \<and> readUInt32BE message (length message - 4)
             = unat (crc32 (take (length message - 4) message))))"
  using encodeEventStreamMessage_returns [of eventType payload]
    encoded_message_consistent [of eventType payload]
  by blast

theorem encodeEventStreamMessage_self_consistent_witness:
  "\<exists>message.
      encodeEventStreamMessage ''assistantResponseEvent'' (JObj [(''content'', JStr ''Hi'')])
        = Inr message
    \<and> JSON_stringify (JObj [(''content'', JStr ''Hi'')]) = Some ''{\"content\":\"Hi\"}''
    \<and> length message = 124
    \<and> readUInt32BE message 0 = 124
    \<and> readUInt32BE message 8 = unat (crc32 (take 8 message))
    \<and> readUInt32BE message 120 = unat (crc32 (take 120 message))"
proof -
  let ?payload = "JObj [(''content'', JStr ''Hi'')]"
  have js: "JSON_stringify ?payload = Some ''{\"content\":\"Hi\"}''"
    by (simp add: JSON_quote_def JSON_escape_def)
  note c1 = encodeEventStreamMessage_self_consistent [of "''assistantResponseEvent''" ?payload]
  have "length ''assistantResponseEvent'' < 65536
      \<and> (\<exists>json. JSON_stringify ?payload = Some json
            \<and> 86 + length ''assistantResponseEvent'' + length json < 4294967296)"
    by (simp add: js del: JSON_stringify.simps)
  with c1 obtain message where
    m: "encodeEventStreamMessage ''assistantResponseEvent'' ?payload = Inr message"
    by blast
  with c1 obtain h1 h2 h3 json where
    h: "encodeStringHeader '':event-type'' ''assistantResponseEvent'' = Inr h1"
       "encodeStringHeader '':content-type'' ''application/json'' = Inr h2"
       "encodeStringHeader '':message-type'' ''event'' = Inr h3"
    and j: "JSON_stringify ?payload = Some json"
    and l: "length message = 12 + (length h1 + length h2 + length h3) + length (utf8 json) + 4"
    and f: "readUInt32BE message 0 = length message"
       "readUInt32BE message 8 = unat (crc32 (take 8 message))"
       "readUInt32BE message (length message - 4)
          = unat (crc32 (take (length message - 4) message))"
    by blast
  have "length h1 = 37" "length h2 = 33" "length h3 = 22"
    using h by (simp_all add: encodeStringHeader_Inr length_header_bytes)
  moreover have "json = ''{\"content\":\"Hi\"}''"
    using j js by simp
  ultimately have "length message = 124"
    using l by simp
  with m js f show ?thesis
    by (auto simp del: JSON_stringify.simps)
qed

section \<open>The model mapping\<close>

lemma js_ToString_JStr: "js_ToString (JStr s) = Inr s"
  by simp

lemma mapModelId_aliases:
  "mapModelId (JStr ''claude-haiku'') = Inr (JStr ''gemini-3-flash'')"
  "mapModelId (JStr ''simple-task'') = Inr (JStr ''gemini-3-flash'')"
  by (simp_all add: mapModelId_def and_then_def MODEL_MAP_get_def MODEL_MAP_def js_or_def)


lemma mapModelId_string_total: "\<exists>v. mapModelId (JStr s) = Inr v"
  by (simp add: mapModelId_def and_then_def)

lemma mapModelId_other:
  assumes "s \<noteq> []" "s \<noteq> ''claude-haiku''" "s \<noteq> ''simple-task''"
    and "s \<notin> set Object_prototype_names"
  shows "mapModelId (JStr s) = Inr (JStr s)"
  using assms
  by (simp add: mapModelId_def and_then_def MODEL_MAP_get_def MODEL_MAP_def js_or_def)

text \<open>
  C5. \<open>mapModelId\<close> returns for every string, maps both aliases to \<open>gemini-3-flash\<close> and
  an empty or absent id to the default; but an id that names a member inherited from
  \<^verbatim>\<open>Object.prototype\<close> is not returned unchanged: the lookup finds the inherited
  member, which is truthy, and returns it.
\<close>

theorem mapModelId_constructor:
  "mapModelId (JStr ''constructor'') = Inr (JBuiltin ''constructor'')
   \<and> mapModelId (JStr ''constructor'') \<noteq> Inr (JStr ''constructor'')"
  by (simp add: mapModelId_def and_then_def MODEL_MAP_get_def MODEL_MAP_def js_or_def
      Object_prototype_names_def)

section \<open>The request translation\<close>

lemma get_prop_opt_prop:
  "v \<noteq> JNull \<Longrightarrow> v \<noteq> JUndefined \<Longrightarrow> get_prop v key = Inr (opt_prop v key)"
  by (cases v) (simp_all add: opt_prop_def)



lemma opt_prop_truthy_parent: "truthy (opt_prop v key) \<Longrightarrow> v \<noteq> JNull \<and> v \<noteq> JUndefined"
  by (cases v) (simp_all add: opt_prop_def)






lemma kiroToAnthropic_absent:
  assumes "\<not> truthy (opt_prop req ''conversationState'')"
  shows "kiroToAnthropic req
         = Inr (JObj [(''model'', JStr ''claude-sonnet-4-5-thinking''), (''messages'', JArr []),
                      (''max_tokens'', JNum ''8192''), (''stream'', JBool True)])"
  using assms
  by (simp add: kiroToAnthropic_def Let_def and_then_def js_or_def opt_prop_def mapModelId_def
      MODEL_MAP_get_def MODEL_MAP_def Object_prototype_names_def)












section \<open>The model list\<close>

lemma filter_fallback: "Array_filter (JArr FALLBACK_MODELS) model_kept = Inr FALLBACK_MODELS"
  by (simp add: FALLBACK_MODELS_def)

lemma Array_filter_not_array:
  "\<forall>xs. v \<noteq> JArr xs \<Longrightarrow> Array_filter v p = Inl TypeError"
  by (cases v) simp_all

lemma model_kept_error: "model_kept m = Inl e \<Longrightarrow> e = TypeError"
  by (cases m) (simp_all split: if_splits)

lemma filter_err_throws:
  "m \<in> set xs \<Longrightarrow> model_kept m = Inl TypeError \<Longrightarrow> filter_err model_kept xs = Inl TypeError"
proof (induction xs)
  case Nil
  then show ?case by simp
next
  case (Cons x xs)
  show ?case
  proof (cases "model_kept x")
    case (Inl e)
    then show ?thesis
      using model_kept_error [OF Inl] by simp
  next
    case (Inr keep)
    then have "m \<in> set xs"
      using Cons.prems by auto
    then have "filter_err model_kept xs = Inl TypeError"
      using Cons by blast
    then show ?thesis
      using Inr by simp
  qed
qed

text \<open>
  The failures of the request that \<open>getFilteredModels\<close> detects: a request error, a body
  that does not parse, a parsed value without a \<open>models\<close> array, and a \<open>models\<close> array with
  an entry on which the filter's callback throws.
\<close>

lemma getFilteredModels_fallback:
  assumes "reply = LimitsError
           \<or> (\<exists>data. reply = LimitsBody data
                 \<and> (JSON_parse data = None
                    \<or> (\<exists>v. JSON_parse data = Some v
                          \<and> ((\<forall>xs. opt_prop v ''models'' \<noteq> JArr xs)
                             \<or> (\<exists>xs m. opt_prop v ''models'' = JArr xs \<and> m \<in> set xs
                                    \<and> model_kept m = Inl TypeError)))))"
  shows "getFilteredModels JSON_parse reply = Some FALLBACK_MODELS"
  using assms
proof (elim disjE exE conjE)
  assume "reply = LimitsError"
  then show ?thesis
    by (simp add: getFilteredModels_def)
next
  fix data
  assume "reply = LimitsBody data" "JSON_parse data = None"
  then show ?thesis
    by (simp add: getFilteredModels_def)
next
  fix data v
  assume r: "reply = LimitsBody data" "JSON_parse data = Some v"
    and na: "\<forall>xs. opt_prop v ''models'' \<noteq> JArr xs"
  show ?thesis
  proof (cases "get_prop v ''models''")
    case (Inl e)
    then show ?thesis
      using r by (simp add: getFilteredModels_def Let_def and_then_def)
  next
    case (Inr ms)
    then have "\<forall>xs. ms \<noteq> JArr xs"
      using na by (simp add: opt_prop_def)
    then have "Array_filter ms model_kept = Inl TypeError"
      by (rule Array_filter_not_array)
    then show ?thesis
      using r Inr by (simp add: getFilteredModels_def Let_def and_then_def)
  qed
next
  fix data v xs m
  assume r: "reply = LimitsBody data" "JSON_parse data = Some v"
    and ms: "opt_prop v ''models'' = JArr xs" and m: "m \<in> set xs" "model_kept m = Inl TypeError"
  from ms have "truthy (opt_prop v ''models'')"
    by simp
  then have "v \<noteq> JNull \<and> v \<noteq> JUndefined"
    by (rule opt_prop_truthy_parent)
  then have "get_prop v ''models'' = Inr (JArr xs)"
    using ms get_prop_opt_prop [of v "''models''"] by simp
  moreover have "filter_err model_kept xs = Inl TypeError"
    using m by (rule filter_err_throws)
  ultimately show ?thesis
    using r by (simp add: getFilteredModels_def Let_def and_then_def)
qed

lemma getFilteredModels_settles:
  "reply \<noteq> LimitsUnfinished \<Longrightarrow> \<exists>modelIds. getFilteredModels JSON_parse reply = Some modelIds"
  by (cases reply) (simp_all add: getFilteredModels_def)

lemma fallback_response_serializes:
  "JSON_stringify (buildModelResponse FALLBACK_MODELS) = Some fallback_body"
  by (simp add: buildModelResponse_def FALLBACK_MODELS_def Let_def opt_prop_def js_or_def
      JSON_quote_def JSON_escape_def fallback_body_def)

lemma model_response_serializes:
  "\<exists>body. JSON_stringify (buildModelResponse modelIds) = Some body"
  by (simp add: buildModelResponse_def Let_def)

lemma ListAvailableModels_response:
  assumes "req_method req \<noteq> ''OPTIONS''" and "req_path req = ''/ListAvailableModels''"
  shows "server JSON_parse reply proxy req =
           (case getFilteredModels JSON_parse reply of
              None \<Rightarrow>
                \<lparr>res_status = 200, res_headers = [(''Access-Control-Allow-Origin'', ''*'')],
                 res_chunks = [], res_ended = False\<rparr>
            | Some modelIds \<Rightarrow>
                \<lparr>res_status = 200,
                 res_headers = [(''Access-Control-Allow-Origin'', ''*''),
                                (''Content-Type'', ''application/json'')],
                 res_chunks = [utf8 (the (JSON_stringify (buildModelResponse modelIds)))],
                 res_ended = True\<rparr>)"
proof (cases "getFilteredModels JSON_parse reply")
  case None
  then show ?thesis
    using assms by (simp add: server_def Let_def setHeader_def new_response_def)
next
  case (Some modelIds)
  obtain body where "JSON_stringify (buildModelResponse modelIds) = Some body"
    using model_response_serializes by blast
  then show ?thesis
    using assms Some
    by (simp add: server_def Let_def res_end_json_def res_end_def res_write_def writeHead_def
        setHeader_def new_response_def)
qed

text \<open>
  C9, as the code has it. A request for \<open>/ListAvailableModels\<close> is answered with status
  200 and the four fallback models whenever the request to \<open>/account-limits\<close> fails in a
  way the code detects: the request emits an error, or the reply ends with a body that
  does not parse, or that parses to a value without a \<open>models\<close> array, or with a
  \<open>models\<close> array holding an entry on which the filter's callback throws (an entry that
  is neither a string nor an array containing \<open>image\<close>). The filter removes none of the
  four fallback models. Every reply that ends, whatever its body, is answered with status
  200 and a response that is ended. A reply that never ends is never answered: the response
  is neither written to nor ended.
\<close>

theorem ListAvailableModels_fallback:
  "req_method req \<noteq> ''OPTIONS'' \<and> req_path req = ''/ListAvailableModels'' \<longrightarrow>
     ((reply = LimitsError
       \<or> (\<exists>data. reply = LimitsBody data
             \<and> (JSON_parse data = None
                \<or> (\<exists>v. JSON_parse data = Some v
                      \<and> ((\<forall>xs. opt_prop v ''models'' \<noteq> JArr xs)
                         \<or> (\<exists>xs m. opt_prop v ''models'' = JArr xs \<and> m \<in> set xs
                                \<and> model_kept m = Inl TypeError)))))) \<longrightarrow>
      server JSON_parse reply proxy req
      = \<lparr>res_status = 200,
         res_headers = [(''Access-Control-Allow-Origin'', ''*''),
                        (''Content-Type'', ''application/json'')],
         res_chunks = [utf8 fallback_body], res_ended = True\<rparr>)
     \<and> Array_filter (JArr FALLBACK_MODELS) model_kept = Inr FALLBACK_MODELS
     \<and> (reply \<noteq> LimitsUnfinished \<longrightarrow>
          (\<exists>body. server JSON_parse reply proxy req
                   = \<lparr>res_status = 200,
                      res_headers = [(''Access-Control-Allow-Origin'', ''*''),
                                     (''Content-Type'', ''application/json'')],
                      res_chunks = [body], res_ended = True\<rparr>))
     \<and> (reply = LimitsUnfinished \<longrightarrow>
          server JSON_parse reply proxy req
          = \<lparr>res_status = 200, res_headers = [(''Access-Control-Allow-Origin'', ''*'')],
             res_chunks = [], res_ended = False\<rparr>)"
proof (intro impI conjI)
  assume req: "req_method req \<noteq> ''OPTIONS'' \<and> req_path req = ''/ListAvailableModels''"
  then have response: "server JSON_parse reply proxy req =
           (case getFilteredModels JSON_parse reply of
              None \<Rightarrow>
                \<lparr>res_status = 200, res_headers = [(''Access-Control-Allow-Origin'', ''*'')],
                 res_chunks = [], res_ended = False\<rparr>
            | Some modelIds \<Rightarrow>
                \<lparr>res_status = 200,
                 res_headers = [(''Access-Control-Allow-Origin'', ''*''),
                                (''Content-Type'', ''application/json'')],
                 res_chunks = [utf8 (the (JSON_stringify (buildModelResponse modelIds)))],
                 res_ended = True\<rparr>)"
    by (intro ListAvailableModels_response) simp_all
  {
    assume "reply = LimitsError
       \<or> (\<exists>data. reply = LimitsBody data
             \<and> (JSON_parse data = None
                \<or> (\<exists>v. JSON_parse data = Some v
                      \<and> ((\<forall>xs. opt_prop v ''models'' \<noteq> JArr xs)
                         \<or> (\<exists>xs m. opt_prop v ''models'' = JArr xs \<and> m \<in> set xs
                                \<and> model_kept m = Inl TypeError)))))"
    then have "getFilteredModels JSON_parse reply = Some FALLBACK_MODELS"
      by (rule getFilteredModels_fallback)
    then show "server JSON_parse reply proxy req
      = \<lparr>res_status = 200,
         res_headers = [(''Access-Control-Allow-Origin'', ''*''),
                        (''Content-Type'', ''application/json'')],
         res_chunks = [utf8 fallback_body], res_ended = True\<rparr>"
      using response by (simp add: fallback_response_serializes)
  }
  show "Array_filter (JArr FALLBACK_MODELS) model_kept = Inr FALLBACK_MODELS"
    by (rule filter_fallback)
  {
    assume "reply \<noteq> LimitsUnfinished"
    then obtain modelIds where "getFilteredModels JSON_parse reply = Some modelIds"
      using getFilteredModels_settles by blast
    then show "\<exists>body. server JSON_parse reply proxy req
                   = \<lparr>res_status = 200,
                      res_headers = [(''Access-Control-Allow-Origin'', ''*''),
                                     (''Content-Type'', ''application/json'')],
                      res_chunks = [body], res_ended = True\<rparr>"
      using response by simp
  }
  {
    assume "reply = LimitsUnfinished"
    then have "getFilteredModels JSON_parse reply = None"
      by (simp add: getFilteredModels_def)
    then show "server JSON_parse reply proxy req
          = \<lparr>res_status = 200, res_headers = [(''Access-Control-Allow-Origin'', ''*'')],
             res_chunks = [], res_ended = False\<rparr>"
      using response by simp
  }
qed

theorem ListAvailableModels_fallback_witness:
  "server (\<lambda>s. if s = ''{\"status\":\"starting\"}'' then Some (JObj [(''status'', JStr ''starting'')])
                else None)
     (LimitsBody ''{\"status\":\"starting\"}'') ProxyError
     \<lparr>req_method = ''GET'', req_path = ''/ListAvailableModels'', req_body = []\<rparr>
   = \<lparr>res_status = 200,
      res_headers = [(''Access-Control-Allow-Origin'', ''*''),
                     (''Content-Type'', ''application/json'')],
      res_chunks = [utf8 fallback_body], res_ended = True\<rparr>
   \<and> server (\<lambda>s. None) LimitsError ProxyError
       \<lparr>req_method = ''GET'', req_path = ''/ListAvailableModels'', req_body = []\<rparr>
     = \<lparr>res_status = 200,
        res_headers = [(''Access-Control-Allow-Origin'', ''*''),
                       (''Content-Type'', ''application/json'')],
        res_chunks = [utf8 fallback_body], res_ended = True\<rparr>"
proof -
  let ?parse = "\<lambda>s. if s = ''{\"status\":\"starting\"}'' then Some (JObj [(''status'', JStr ''starting'')])
                    else None"
  let ?reply = "LimitsBody ''{\"status\":\"starting\"}''"
  let ?req = "\<lparr>req_method = ''GET'', req_path = ''/ListAvailableModels'', req_body = []\<rparr>"
  have req: "req_method ?req \<noteq> ''OPTIONS'' \<and> req_path ?req = ''/ListAvailableModels''"
    by simp
  have fail: "?reply = LimitsError
       \<or> (\<exists>data. ?reply = LimitsBody data
             \<and> (?parse data = None
                \<or> (\<exists>v. ?parse data = Some v
                      \<and> ((\<forall>xs. opt_prop v ''models'' \<noteq> JArr xs)
                         \<or> (\<exists>xs m. opt_prop v ''models'' = JArr xs \<and> m \<in> set xs
                                \<and> model_kept m = Inl TypeError)))))"
    by (simp add: opt_prop_def)
  have error: "LimitsError = LimitsError
       \<or> (\<exists>data. LimitsError = LimitsBody data
             \<and> ((\<lambda>s. None) data = None
                \<or> (\<exists>v. (\<lambda>s. None) data = Some v
                      \<and> ((\<forall>xs. opt_prop v ''models'' \<noteq> JArr xs)
                         \<or> (\<exists>xs m. opt_prop v ''models'' = JArr xs \<and> m \<in> set xs
                                \<and> model_kept m = Inl TypeError)))))"
    by simp
  from ListAvailableModels_fallback [of ?req ?reply ?parse ProxyError] req fail
  have "server ?parse ?reply ProxyError ?req
      = \<lparr>res_status = 200,
         res_headers = [(''Access-Control-Allow-Origin'', ''*''),
                        (''Content-Type'', ''application/json'')],
         res_chunks = [utf8 fallback_body], res_ended = True\<rparr>"
    by blast
  moreover
  from ListAvailableModels_fallback [of ?req LimitsError "\<lambda>s. None" ProxyError] req error
  have "server (\<lambda>s. None) LimitsError ProxyError ?req
      = \<lparr>res_status = 200,
         res_headers = [(''Access-Control-Allow-Origin'', ''*''),
                        (''Content-Type'', ''application/json'')],
         res_chunks = [utf8 fallback_body], res_ended = True\<rparr>"
    by blast
  ultimately show ?thesis
    by (rule conjI)
qed

text \<open>
  The claim as stated fails in two ways. A reply that never ends, which is what an upstream
  that stalls comes to since no timeout is set, leaves the request unanswered. And a body
  of the wrong shape need not give the fallback list: the entries of
  \<^verbatim>\<open>{"models":[["image"]]}\<close> are arrays, which have an \<^verbatim>\<open>includes\<close> method, and the answer
  is an empty model list.
\<close>

theorem ListAvailableModels_unanswered_counterexample:
  "server (\<lambda>s. None) LimitsUnfinished ProxyError
     \<lparr>req_method = ''GET'', req_path = ''/ListAvailableModels'', req_body = []\<rparr>
   = \<lparr>res_status = 200, res_headers = [(''Access-Control-Allow-Origin'', ''*'')],
      res_chunks = [], res_ended = False\<rparr>
   \<and> server (\<lambda>s. if s = ''{\"models\":[[\"image\"]]}''
                  then Some (JObj [(''models'', JArr [JArr [JStr ''image'']])]) else None)
       (LimitsBody ''{\"models\":[[\"image\"]]}'') ProxyError
       \<lparr>req_method = ''GET'', req_path = ''/ListAvailableModels'', req_body = []\<rparr>
     = \<lparr>res_status = 200,
        res_headers = [(''Access-Control-Allow-Origin'', ''*''),
                       (''Content-Type'', ''application/json'')],
        res_chunks = [utf8 ''{\"defaultModel\":{\"modelId\":\"claude-sonnet-4-5-thinking\"},\"models\":[],\"nextToken\":null}''],
        res_ended = True\<rparr>
   \<and> utf8 ''{\"defaultModel\":{\"modelId\":\"claude-sonnet-4-5-thinking\"},\"models\":[],\"nextToken\":null}''
     \<noteq> utf8 fallback_body"
proof (intro conjI)
  let ?req = "\<lparr>req_method = ''GET'', req_path = ''/ListAvailableModels'', req_body = []\<rparr>"
  show "server (\<lambda>s. None) LimitsUnfinished ProxyError ?req
   = \<lparr>res_status = 200, res_headers = [(''Access-Control-Allow-Origin'', ''*'')],
      res_chunks = [], res_ended = False\<rparr>"
    by (simp add: server_def Let_def getFilteredModels_def setHeader_def new_response_def)
  show "server (\<lambda>s. if s = ''{\"models\":[[\"image\"]]}''
                  then Some (JObj [(''models'', JArr [JArr [JStr ''image'']])]) else None)
       (LimitsBody ''{\"models\":[[\"image\"]]}'') ProxyError ?req
     = \<lparr>res_status = 200,
        res_headers = [(''Access-Control-Allow-Origin'', ''*''),
                       (''Content-Type'', ''application/json'')],
        res_chunks = [utf8 ''{\"defaultModel\":{\"modelId\":\"claude-sonnet-4-5-thinking\"},\"models\":[],\"nextToken\":null}''],
        res_ended = True\<rparr>"
    by (simp add: server_def Let_def getFilteredModels_def and_then_def setHeader_def
        new_response_def writeHead_def res_end_json_def res_end_def res_write_def
        buildModelResponse_def js_or_def JSON_quote_def JSON_escape_def)
  have "length (utf8 ''{\"defaultModel\":{\"modelId\":\"claude-sonnet-4-5-thinking\"},\"models\":[],\"nextToken\":null}'')
        \<noteq> length (utf8 fallback_body)"
    by (simp add: utf8_def fallback_body_def)
  then show "utf8 ''{\"defaultModel\":{\"modelId\":\"claude-sonnet-4-5-thinking\"},\"models\":[],\"nextToken\":null}''
     \<noteq> utf8 fallback_body"
    by metis
qed

section \<open>Streaming a reply\<close>

lemma split_lines_not_Nil [simp]: "split_lines s \<noteq> []"
  by (induction s) (auto split: list.splits)

lemma split_lines_Cons:
  "split_lines (c # cs) =
     (if c = CHR 0x0A then [] # split_lines cs
      else (c # hd (split_lines cs)) # tl (split_lines cs))"
  by (cases "split_lines cs") simp_all

lemma split_lines_append:
  "split_lines (a @ b) = butlast (split_lines a) @ split_lines (last (split_lines a) @ b)"
proof (induction a)
  case Nil
  then show ?case by simp
next
  case (Cons c cs)
  show ?case
  proof (cases "c = CHR 0x0A")
    case True
    then show ?thesis
      using Cons by simp
  next
    case False
    show ?thesis
    proof (cases "split_lines cs")
      case Nil
      then show ?thesis by simp
    next
      case (Cons l ls)
      show ?thesis
      proof (cases ls)
        case Nil
        then show ?thesis
          using False Cons Cons.IH by (simp add: split_lines_Cons del: split_lines.simps)
      next
        case (Cons l' ls')
        then show ?thesis
          using False \<open>split_lines cs = l # ls\<close> Cons.IH
          by (simp add: split_lines_Cons del: split_lines.simps)
      qed
    qed
  qed
qed

lemma split_lines_no_newline: "CHR 0x0A \<notin> set s \<Longrightarrow> split_lines s = [s]"
  by (induction s) auto

lemma last_split_lines_no_newline: "CHR 0x0A \<notin> set (last (split_lines s))"
  by (induction s) (auto split: list.splits)

lemma on_line_buf [simp]: "st_buf (on_line JSON_parse st ln) = st_buf st"
  by (simp add: on_line_def Let_def split: option.splits sum.splits)

lemma on_line_set_buf:
  "on_line JSON_parse (st\<lparr>st_buf := b\<rparr>) ln = (on_line JSON_parse st ln)\<lparr>st_buf := b\<rparr>"
  by (simp add: on_line_def Let_def split: option.splits sum.splits)

lemma lines_buf [simp]: "st_buf (foldl (on_line JSON_parse) st ls) = st_buf st"
  by (induction ls arbitrary: st) simp_all

lemma lines_set_buf:
  "foldl (on_line JSON_parse) (st\<lparr>st_buf := b\<rparr>) ls
   = (foldl (on_line JSON_parse) st ls)\<lparr>st_buf := b\<rparr>"
  by (induction ls arbitrary: st) (simp_all add: on_line_set_buf)

text \<open>
  However the reply is cut into chunks, the \<open>data\<close> handler has run the loop body on
  every finished line of the text received so far, and holds the unfinished rest.
\<close>

lemma on_data_chunks:
  assumes "CHR 0x0A \<notin> set (st_buf st)"
  shows "foldl (on_data JSON_parse) st chunks
         = foldl (on_line JSON_parse)
             (st\<lparr>st_buf := last (split_lines (st_buf st @ concat chunks))\<rparr>)
             (butlast (split_lines (st_buf st @ concat chunks)))"
  using assms
proof (induction chunks arbitrary: st)
  case Nil
  then show ?case
    by (simp add: split_lines_no_newline)
next
  case (Cons c cs)
  define l1 where "l1 = split_lines (st_buf st @ c)"
  define st1 where "st1 = on_data JSON_parse st c"
  define L where "L = split_lines (last l1 @ concat cs)"
  have st1: "st1 = foldl (on_line JSON_parse) (st\<lparr>st_buf := last l1\<rparr>) (butlast l1)"
    by (simp add: st1_def on_data_def Let_def l1_def)
  then have buf1: "st_buf st1 = last l1"
    by simp
  then have "CHR 0x0A \<notin> set (st_buf st1)"
    by (simp add: l1_def last_split_lines_no_newline)
  then have "foldl (on_data JSON_parse) st1 cs
             = foldl (on_line JSON_parse) (st1\<lparr>st_buf := last L\<rparr>) (butlast L)"
    unfolding L_def buf1 [symmetric] by (rule Cons.IH)
  moreover have "st1\<lparr>st_buf := last L\<rparr>
                 = foldl (on_line JSON_parse) (st\<lparr>st_buf := last L\<rparr>) (butlast l1)"
    by (simp add: st1 lines_set_buf)
  moreover have "split_lines (st_buf st @ concat (c # cs)) = butlast l1 @ L"
    using split_lines_append [of "st_buf st @ c" "concat cs"] by (simp add: l1_def L_def)
  moreover have "L \<noteq> []"
    by (simp add: L_def)
  ultimately show ?case
    by (simp add: st1_def butlast_append)
qed

lemma createAssistantResponseEvent_Hi:
  "createAssistantResponseEvent (JStr ''Hi'')
     = Inr (event_frame ''assistantResponseEvent'' ''{\"content\":\"Hi\"}'')"
  "createAssistantResponseEvent (JStr '' there'')
     = Inr (event_frame ''assistantResponseEvent'' ''{\"content\":\" there\"}'')"
  by (simp_all add: createAssistantResponseEvent_def encodeEventStreamMessage_Inr event_frame_def
      JSON_quote_def JSON_escape_def)

lemma closing_events:
  "createMeteringEvent (JNum ''0.001'')
     = Inr (event_frame ''meteringEvent''
              ''{\"unit\":\"credit\",\"unitPlural\":\"credits\",\"usage\":0.001}'')"
  "createContextUsageEvent (JNum ''0.5'')
     = Inr (event_frame ''contextUsageEvent'' ''{\"contextUsagePercentage\":0.5}'')"
  by (simp_all add: createMeteringEvent_def createContextUsageEvent_def
      encodeEventStreamMessage_Inr event_frame_def JSON_quote_def JSON_escape_def)

lemma two_lines:
  "split_lines
     ''data: {\"type\":\"content_block_delta\",\"delta\":{\"text\":\"Hi\"}}\<newline>\<newline>data: {\"type\":\"content_block_delta\",\"delta\":{\"text\":\" there\"}}\<newline>\<newline>''
   = [''data: {\"type\":\"content_block_delta\",\"delta\":{\"text\":\"Hi\"}}'', [],
      ''data: {\"type\":\"content_block_delta\",\"delta\":{\"text\":\" there\"}}'', [], []]"
  by simp

text \<open>
  C2. A \<open>POST /generateAssistantResponse\<close> request whose body translates, and whose
  upstream reply is, in any chunking, the two SSE lines with the texts \<open>Hi\<close> and
  \<open> there\<close>: the response has status 200 and holds exactly four frames, the two
  \<open>assistantResponseEvent\<close> frames with contents \<open>Hi\<close> and \<open> there\<close> in that order, then
  one \<open>meteringEvent\<close> frame (usage 0.001) and one \<open>contextUsageEvent\<close> frame (0.5), and
  is ended. \<open>JSON_parse\<close> is any function that reads the two event texts as JSON does.
\<close>

theorem generateAssistantResponse_two_deltas:
  assumes "req_method req = ''POST''" and "req_path req = ''/generateAssistantResponse''"
    and "JSON_parse (req_body req) = Some v" and "kiroToAnthropic v = Inr anthropicReq"
    and "JSON_parse ''{\"type\":\"content_block_delta\",\"delta\":{\"text\":\"Hi\"}}''
         = Some (JObj [(''type'', JStr ''content_block_delta''),
                       (''delta'', JObj [(''text'', JStr ''Hi'')])])"
    and "JSON_parse ''{\"type\":\"content_block_delta\",\"delta\":{\"text\":\" there\"}}''
         = Some (JObj [(''type'', JStr ''content_block_delta''),
                       (''delta'', JObj [(''text'', JStr '' there'')])])"
    and "concat chunks
         = ''data: {\"type\":\"content_block_delta\",\"delta\":{\"text\":\"Hi\"}}\<newline>\<newline>data: {\"type\":\"content_block_delta\",\"delta\":{\"text\":\" there\"}}\<newline>\<newline>''"
  shows "server JSON_parse limits (ProxyResponse chunks) req
         = \<lparr>res_status = 200,
            res_headers = [(''Access-Control-Allow-Origin'', ''*''),
                           (''Content-Type'', ''application/vnd.amazon.eventstream''),
                           (''Transfer-Encoding'', ''chunked'')],
            res_chunks =
              [event_frame ''assistantResponseEvent'' ''{\"content\":\"Hi\"}'',
               event_frame ''assistantResponseEvent'' ''{\"content\":\" there\"}'',
               event_frame ''meteringEvent''
                 ''{\"unit\":\"credit\",\"unitPlural\":\"credits\",\"usage\":0.001}'',
               event_frame ''contextUsageEvent'' ''{\"contextUsagePercentage\":0.5}''],
            res_ended = True\<rparr>
         \<and> createAssistantResponseEvent (JStr ''Hi'')
             = Inr (event_frame ''assistantResponseEvent'' ''{\"content\":\"Hi\"}'')
         \<and> createAssistantResponseEvent (JStr '' there'')
             = Inr (event_frame ''assistantResponseEvent'' ''{\"content\":\" there\"}'')
         \<and> createMeteringEvent (JNum ''0.001'')
             = Inr (event_frame ''meteringEvent''
                      ''{\"unit\":\"credit\",\"unitPlural\":\"credits\",\"usage\":0.001}'')
         \<and> createContextUsageEvent (JNum ''0.5'')
             = Inr (event_frame ''contextUsageEvent'' ''{\"contextUsagePercentage\":0.5}'')"
proof -
  define res0 where "res0 =
    writeHead 200 [(''Content-Type'', ''application/vnd.amazon.eventstream''),
                   (''Transfer-Encoding'', ''chunked'')]
      (setHeader ''Access-Control-Allow-Origin'' ''*'' new_response)"
  define st0 where "st0 = \<lparr>st_buf = [], st_tc = 0, st_res = res0\<rparr>"
  have "foldl (on_data JSON_parse) st0 chunks
        = foldl (on_line JSON_parse)
            (st0\<lparr>st_buf := last (split_lines (st_buf st0 @ concat chunks))\<rparr>)
            (butlast (split_lines (st_buf st0 @ concat chunks)))"
    by (rule on_data_chunks) (simp add: st0_def)
  also have "st_buf st0 @ concat chunks
             = ''data: {\"type\":\"content_block_delta\",\"delta\":{\"text\":\"Hi\"}}\<newline>\<newline>data: {\"type\":\"content_block_delta\",\"delta\":{\"text\":\" there\"}}\<newline>\<newline>''"
    using assms(7) by (simp add: st0_def)
  finally have run: "foldl (on_data JSON_parse) st0 chunks
        = foldl (on_line JSON_parse) (st0\<lparr>st_buf := []\<rparr>)
            [''data: {\"type\":\"content_block_delta\",\"delta\":{\"text\":\"Hi\"}}'', [],
             ''data: {\"type\":\"content_block_delta\",\"delta\":{\"text\":\" there\"}}'', []]"
    unfolding two_lines by simp
  have l1: "on_line JSON_parse st
              ''data: {\"type\":\"content_block_delta\",\"delta\":{\"text\":\"Hi\"}}''
            = st\<lparr>st_tc := st_tc st + 1,
                 st_res := res_write (event_frame ''assistantResponseEvent'' ''{\"content\":\"Hi\"}'')
                             (st_res st)\<rparr>" for st
    using assms(5) by (simp add: on_line_def opt_prop_def createAssistantResponseEvent_Hi)
  have l2: "on_line JSON_parse st
              ''data: {\"type\":\"content_block_delta\",\"delta\":{\"text\":\" there\"}}''
            = st\<lparr>st_tc := st_tc st + 1,
                 st_res := res_write (event_frame ''assistantResponseEvent'' ''{\"content\":\" there\"}'')
                             (st_res st)\<rparr>" for st
    using assms(6) by (simp add: on_line_def opt_prop_def createAssistantResponseEvent_Hi)
  have l0: "on_line JSON_parse st [] = st" for st
    by (simp add: on_line_def)
  have fin: "on_end (foldl (on_data JSON_parse) st0 chunks)
        = \<lparr>res_status = 200,
            res_headers = [(''Access-Control-Allow-Origin'', ''*''),
                           (''Content-Type'', ''application/vnd.amazon.eventstream''),
                           (''Transfer-Encoding'', ''chunked'')],
            res_chunks =
              [event_frame ''assistantResponseEvent'' ''{\"content\":\"Hi\"}'',
               event_frame ''assistantResponseEvent'' ''{\"content\":\" there\"}'',
               event_frame ''meteringEvent''
                 ''{\"unit\":\"credit\",\"unitPlural\":\"credits\",\"usage\":0.001}'',
               event_frame ''contextUsageEvent'' ''{\"contextUsagePercentage\":0.5}''],
            res_ended = True\<rparr>"
    unfolding run
    by (simp add: l1 l2 l0 on_end_def closing_events st0_def res0_def res_write_def res_end_def
        writeHead_def setHeader_def new_response_def)
  have "server JSON_parse limits (ProxyResponse chunks) req
        = on_end (foldl (on_data JSON_parse) st0 chunks)"
    using assms(1-4)
    by (simp add: server_def generateAssistantResponse_def Let_def st0_def res0_def)
  then show ?thesis
    using fin createAssistantResponseEvent_Hi closing_events by simp
qed


theorem generateAssistantResponse_two_deltas_witness:
  "server
     (\<lambda>s. if s = ''{}'' then Some (JObj [])
          else if s = ''{\"type\":\"content_block_delta\",\"delta\":{\"text\":\"Hi\"}}''
          then Some (JObj [(''type'', JStr ''content_block_delta''),
                           (''delta'', JObj [(''text'', JStr ''Hi'')])])
          else if s = ''{\"type\":\"content_block_delta\",\"delta\":{\"text\":\" there\"}}''
          then Some (JObj [(''type'', JStr ''content_block_delta''),
                           (''delta'', JObj [(''text'', JStr '' there'')])])
          else None)
     LimitsError
     (ProxyResponse
        [''data: {\"type\":\"content_block_del'',
         ''ta\",\"delta\":{\"text\":\"Hi\"}}\<newline>'',
         ''\<newline>data: {\"type\":\"content_block_delta\",\"delta\":{\"text\":\" there\"}}\<newline>\<newline>''])
     \<lparr>req_method = ''POST'', req_path = ''/generateAssistantResponse'', req_body = ''{}''\<rparr>
   = \<lparr>res_status = 200,
      res_headers = [(''Access-Control-Allow-Origin'', ''*''),
                     (''Content-Type'', ''application/vnd.amazon.eventstream''),
                     (''Transfer-Encoding'', ''chunked'')],
      res_chunks =
        [event_frame ''assistantResponseEvent'' ''{\"content\":\"Hi\"}'',
         event_frame ''assistantResponseEvent'' ''{\"content\":\" there\"}'',
         event_frame ''meteringEvent''
           ''{\"unit\":\"credit\",\"unitPlural\":\"credits\",\"usage\":0.001}'',
         event_frame ''contextUsageEvent'' ''{\"contextUsagePercentage\":0.5}''],
      res_ended = True\<rparr>"
proof -
  let ?parse = "\<lambda>s. if s = ''{}'' then Some (JObj [])
          else if s = ''{\"type\":\"content_block_delta\",\"delta\":{\"text\":\"Hi\"}}''
          then Some (JObj [(''type'', JStr ''content_block_delta''),
                           (''delta'', JObj [(''text'', JStr ''Hi'')])])
          else if s = ''{\"type\":\"content_block_delta\",\"delta\":{\"text\":\" there\"}}''
          then Some (JObj [(''type'', JStr ''content_block_delta''),
                           (''delta'', JObj [(''text'', JStr '' there'')])])
          else None"
  let ?req = "\<lparr>req_method = ''POST'', req_path = ''/generateAssistantResponse'',
               req_body = ''{}''\<rparr>"
  let ?chunks = "[''data: {\"type\":\"content_block_del'',
         ''ta\",\"delta\":{\"text\":\"Hi\"}}\<newline>'',
         ''\<newline>data: {\"type\":\"content_block_delta\",\"delta\":{\"text\":\" there\"}}\<newline>\<newline>'']"
  have m: "req_method ?req = ''POST''" and p: "req_path ?req = ''/generateAssistantResponse''"
    and b: "?parse (req_body ?req) = Some (JObj [])"
    by simp_all
  have k: "kiroToAnthropic (JObj [])
           = Inr (JObj [(''model'', JStr ''claude-sonnet-4-5-thinking''), (''messages'', JArr []),
                        (''max_tokens'', JNum ''8192''), (''stream'', JBool True)])"
    by (rule kiroToAnthropic_absent) (simp add: opt_prop_def)
  have d1: "?parse ''{\"type\":\"content_block_delta\",\"delta\":{\"text\":\"Hi\"}}''
         = Some (JObj [(''type'', JStr ''content_block_delta''),
                       (''delta'', JObj [(''text'', JStr ''Hi'')])])"
    by simp
  have d2: "?parse ''{\"type\":\"content_block_delta\",\"delta\":{\"text\":\" there\"}}''
         = Some (JObj [(''type'', JStr ''content_block_delta''),
                       (''delta'', JObj [(''text'', JStr '' there'')])])"
    by simp
  have c: "concat ?chunks
         = ''data: {\"type\":\"content_block_delta\",\"delta\":{\"text\":\"Hi\"}}\<newline>\<newline>data: {\"type\":\"content_block_delta\",\"delta\":{\"text\":\" there\"}}\<newline>\<newline>''"
    by simp
  from generateAssistantResponse_two_deltas [of ?req ?parse, OF m p b k d1 d2 c, of LimitsError]
  show ?thesis
    by (elim conjE)
qed

section \<open>The patterns\<close>

lemma strip_prefix_Some: "strip_prefix p s = Some r \<longleftrightarrow> s = p @ r"
  by (auto simp: strip_prefix_def prefix_def)

lemma regex_test_iff: "regex_test m s \<longleftrightarrow> (\<exists>j. m (drop j s) \<noteq> None)"
proof (induction s)
  case Nil
  then show ?case by simp
next
  case (Cons c cs)
  show ?case
  proof
    assume "regex_test m (c # cs)"
    then consider "m (c # cs) \<noteq> None" | "regex_test m cs"
      by auto
    then show "\<exists>j. m (drop j (c # cs)) \<noteq> None"
    proof cases
      case 1
      then have "m (drop 0 (c # cs)) \<noteq> None" by simp
      then show ?thesis by blast
    next
      case 2
      then obtain j where "m (drop j cs) \<noteq> None"
        using Cons.IH by blast
      then have "m (drop (Suc j) (c # cs)) \<noteq> None" by simp
      then show ?thesis by blast
    qed
  next
    assume "\<exists>j. m (drop j (c # cs)) \<noteq> None"
    then obtain j where j: "m (drop j (c # cs)) \<noteq> None"
      by blast
    show "regex_test m (c # cs)"
    proof (cases j)
      case 0
      then show ?thesis using j by simp
    next
      case (Suc k)
      then have "m (drop k cs) \<noteq> None" using j by simp
      then show ?thesis using Cons.IH by auto
    qed
  qed
qed

text \<open>The host pattern matches exactly the texts of the shape it spells out.\<close>

lemma match_host_SomeD:
  assumes "match_host s = Some n"
  shows "\<exists>region t. region \<noteq> [] \<and> (\<forall>c\<in>set region. is_region_char c)
           \<and> s = ''https://q.'' @ region @ ''.amazonaws.com'' @ t \<and> n = 24 + length region"
proof -
  from assms obtain rest where rest: "s = ''https://q.'' @ rest"
    by (auto simp: match_host_def strip_prefix_Some split: option.splits)
  define region where "region = takeWhile is_region_char rest"
  from assms rest have ne: "region \<noteq> []"
    by (auto simp: match_host_def strip_prefix_def region_def Let_def split: option.splits if_splits)
  from assms rest ne obtain t where t: "dropWhile is_region_char rest = ''.amazonaws.com'' @ t"
    and n: "n = 10 + length region + 14"
    by (auto simp: match_host_def strip_prefix_def region_def Let_def prefix_def
        split: option.splits if_splits)
  have "rest = region @ ''.amazonaws.com'' @ t"
    using takeWhile_dropWhile_id [of is_region_char rest] by (simp add: region_def t)
  moreover have "\<forall>c\<in>set region. is_region_char c"
    by (auto simp: region_def dest: set_takeWhileD)
  ultimately show ?thesis
    using rest ne n by auto
qed

lemma not_region_dot: "\<not> is_region_char CHR ''.''"
  by (simp add: is_region_char_def)

lemma match_host_SomeI:
  assumes "region \<noteq> []" and "\<forall>c\<in>set region. is_region_char c"
  shows "match_host (''https://q.'' @ region @ ''.amazonaws.com'' @ t) = Some (24 + length region)"
proof -
  have tw: "takeWhile is_region_char (region @ ''.amazonaws.com'' @ t) = region"
    using assms(2) by (simp add: takeWhile_append2 not_region_dot)
  have dw: "dropWhile is_region_char (region @ ''.amazonaws.com'' @ t) = ''.amazonaws.com'' @ t"
    using assms(2) by (simp add: dropWhile_append2 not_region_dot)
  have sp: "strip_prefix ''https://q.'' (''https://q.'' @ region @ ''.amazonaws.com'' @ t)
            = Some (region @ ''.amazonaws.com'' @ t)"
    by (simp add: strip_prefix_def)
  show ?thesis
    unfolding match_host_def sp option.case Let_def tw dw
    using assms(1) by (simp add: strip_prefix_def)
qed

lemma match_host_prefix:
  assumes "match_host (a @ t) = Some n" and "n \<le> length a"
  shows "match_host (a @ t') = Some n"
proof -
  from match_host_SomeD [OF assms(1)] obtain region t0 where
    r: "region \<noteq> []" "\<forall>c\<in>set region. is_region_char c"
    and s: "a @ t = ''https://q.'' @ region @ ''.amazonaws.com'' @ t0"
    and n: "n = 24 + length region"
    by blast
  define W where "W = ''https://q.'' @ region @ ''.amazonaws.com''"
  have lW: "length W = n"
    by (simp add: W_def n)
  have "a @ t = W @ t0"
    by (simp add: s W_def)
  then have "take n (a @ t) = W"
    using lW by simp
  then have "take n a = W"
    using assms(2) by simp
  then have "a = W @ drop n a"
    using append_take_drop_id [of n a] by simp
  then have "a @ t' = W @ (drop n a @ t')"
    by (metis append.assoc)
  then have e: "a @ t' = ''https://q.'' @ region @ ''.amazonaws.com'' @ (drop n a @ t')"
    by (simp add: W_def)
  show ?thesis
    unfolding n by (subst e) (rule match_host_SomeI [OF r])
qed

text \<open>
  A match of the host pattern that starts in front of an inserted replacement cannot
  reach into it: the replacement has its colon behind \<open>http\<close>, a match has its only
  colon behind \<open>https\<close>, and a match ends in \<open>m\<close>.
\<close>

lemma nth_first: "i < length a \<Longrightarrow> (a @ b @ c) ! i = a ! i"
  by (simp add: nth_append)

lemma nth_second:
  "length a \<le> i \<Longrightarrow> i < length a + length b \<Longrightarrow> (a @ b @ c) ! i = b ! (i - length a)"
proof -
  assume "length a \<le> i" "i < length a + length b"
  then have "\<not> i < length a" "i - length a < length b"
    by arith+
  then show ?thesis
    by (simp add: nth_append)
qed

lemma nth_third:
  "length a + length b \<le> i \<Longrightarrow> (a @ b @ c) ! i = c ! (i - (length a + length b))"
proof -
  assume "length a + length b \<le> i"
  then have "\<not> i < length a" "\<not> i - length a < length b"
    "i - length a - length b = i - (length a + length b)"
    by arith+
  then show ?thesis
    by (simp add: nth_append)
qed

lemma scheme_colon: "i < 10 \<Longrightarrow> ''https://q.'' ! i = CHR '':'' \<Longrightarrow> i = 5"
proof -
  assume "i < 10" and c: "''https://q.'' ! i = CHR '':''"
  then have "i \<in> {0, 1, 2, 3, 4, 5, 6, 7, 8, 9}"
    by auto
  with c show "i = 5"
    by auto
qed

lemma domain_no_colon: "j < 14 \<Longrightarrow> ''.amazonaws.com'' ! j \<noteq> CHR '':''"
proof -
  assume "j < 14"
  then have "''.amazonaws.com'' ! j \<in> set ''.amazonaws.com''"
    by (intro nth_mem) simp
  then show ?thesis
    by auto
qed

lemma replacement_head: "j < 4 \<Longrightarrow> ''http://localhost:9980'' ! j \<noteq> CHR ''m''"
proof -
  assume "j < 4"
  then have "j \<in> {0, 1, 2, 3}"
    by auto
  then show ?thesis
    by auto
qed

lemma match_host_not_into_replacement:
  assumes "match_host (v @ ''http://localhost:9980'' @ x) = Some n"
  shows "n \<le> length v"
proof (rule ccontr)
  assume "\<not> n \<le> length v"
  then have gt: "length v < n"
    by simp
  define pre where "pre = ''https://q.''"
  define suf where "suf = ''.amazonaws.com''"
  define rep where "rep = ''http://localhost:9980''"
  note pre_suf_rep_def = pre_def suf_def rep_def
  have lens: "length pre = 10" "length suf = 14" "length rep = 21"
    by (simp_all add: pre_suf_rep_def)
  from match_host_SomeD [OF assms] obtain region t0 where
    r: "region \<noteq> []" "\<forall>c\<in>set region. is_region_char c"
    and s: "v @ rep @ x = pre @ region @ suf @ t0"
    and n: "n = 24 + length region"
    unfolding pre_suf_rep_def by blast
  define W where "W = pre @ region @ suf"
  have lW: "length W = n"
    by (simp add: W_def n lens)
  have s': "v @ rep @ x = W @ t0"
    using s by (simp add: W_def)
  have at: "W ! i = rep ! (i - length v)"
    if "length v \<le> i" "i < n" "i - length v < 21" for i
  proof -
    have "W ! i = (W @ t0) ! i"
      using that lW by (simp add: nth_append)
    also have "\<dots> = (v @ rep @ x) ! i"
      by (simp only: s')
    also have "\<dots> = (rep @ x) ! (i - length v)"
      using that by (simp add: nth_append)
    also have "\<dots> = rep ! (i - length v)"
      using that lens by (simp add: nth_append)
    finally show ?thesis .
  qed
  have colon: "i = 5" if "i < n" "W ! i = CHR '':''" for i
  proof -
    consider "i < 10" | "10 \<le> i" "i < 10 + length region" | "10 + length region \<le> i"
      by linarith
    then show ?thesis
    proof cases
      case 1
      then have "W ! i = pre ! i"
        unfolding W_def by (intro nth_first) (simp add: lens)
      then have "''https://q.'' ! i = CHR '':''"
        using that(2) by (simp add: pre_def)
      with 1 show ?thesis
        by (rule scheme_colon)
    next
      case 2
      then have in_region: "i - 10 < length region"
        by arith
      have "W ! i = region ! (i - length pre)"
        unfolding W_def using 2 by (intro nth_second) (simp_all add: lens)
      then have "W ! i = region ! (i - 10)"
        by (simp add: lens)
      moreover have "region ! (i - 10) \<in> set region"
        using in_region by simp
      ultimately have "is_region_char CHR '':''"
        using r(2) that(2) by metis
      then show ?thesis
        by (simp add: is_region_char_def)
    next
      case 3
      then have "W ! i = suf ! (i - (length pre + length region))"
        unfolding W_def by (intro nth_third) (simp add: lens)
      then have "suf ! (i - (10 + length region)) = CHR '':''"
        using that(2) by (simp add: lens)
      moreover have "i - (10 + length region) < 14"
        using that(1) 3 n by simp
      then have "suf ! (i - (10 + length region)) \<noteq> CHR '':''"
        unfolding suf_def by (rule domain_no_colon)
      ultimately show ?thesis
        by contradiction
    qed
  qed
  have "W ! (n - 1) = suf ! (n - 1 - (length pre + length region))"
    unfolding W_def by (intro nth_third) (simp add: lens n)
  then have "W ! (n - 1) = suf ! 13"
    by (simp add: lens n)
  then have lastW: "W ! (n - 1) = CHR ''m''"
    by (simp add: pre_suf_rep_def)
  have "W ! 1 = pre ! 1"
    unfolding W_def by (intro nth_first) (simp add: lens)
  then have W1: "W ! 1 = CHR ''t''"
    by (simp add: pre_suf_rep_def)
  show False
  proof (cases "n \<le> length v + 4")
    case True
    have "W ! (n - 1) = rep ! (n - 1 - length v)"
      using gt True by (intro at) auto
    then have "rep ! (n - 1 - length v) = CHR ''m''"
      using lastW by simp
    moreover have "n - 1 - length v < 4"
      using gt True by auto
    then have "rep ! (n - 1 - length v) \<noteq> CHR ''m''"
      unfolding rep_def by (rule replacement_head)
    ultimately show False
      by contradiction
  next
    case False
    then have "W ! (length v + 4) = rep ! (length v + 4 - length v)"
      by (intro at) auto
    then have "W ! (length v + 4) = CHR '':''"
      by (simp add: pre_suf_rep_def)
    then have "length v + 4 = 5"
      using False by (intro colon) auto
    then have v1: "length v = 1"
      by simp
    have "W ! 1 = rep ! (1 - length v)"
      using v1 False by (intro at) auto
    then show False
      using W1 v1 by (simp add: pre_suf_rep_def)
  qed
qed

lemma no_match_in_replacement:
  "regex_test match_host (''http://localhost:9980'' @ x) = regex_test match_host x"
  by (simp add: match_host_def strip_prefix_def)

text \<open>
  What a replacement leaves: the text itself when nothing matches, and otherwise the text
  up to the first match followed by the replacement.
\<close>

lemma replace_all_shape:
  "(\<not> regex_test m s \<and> replace_all m r s = s)
   \<or> (regex_test m s \<and> (\<exists>u t x. s = u @ t \<and> replace_all m r s = u @ r @ x))"
proof (induction m r s rule: replace_all.induct)
  case (1 m r)
  show ?case
  proof (cases "m []")
    case None
    then show ?thesis by simp
  next
    case (Some n)
    then have "[] = [] @ [] \<and> replace_all m r [] = [] @ r @ []"
      by simp
    then show ?thesis
      using Some by (metis option.distinct(1) regex_test.simps(1))
  qed
next
  case (2 m r c cs)
  show ?case
  proof (cases "m (c # cs)")
    case None
    from 2(1) [OF None] show ?thesis
    proof (elim disjE conjE exE)
      assume "\<not> regex_test m cs" "replace_all m r cs = cs"
      then show ?thesis
        using None by simp
    next
      fix u t x
      assume "regex_test m cs" "cs = u @ t" "replace_all m r cs = u @ r @ x"
      then have "c # cs = (c # u) @ t \<and> replace_all m r (c # cs) = (c # u) @ r @ x"
        using None by simp
      then show ?thesis
        using \<open>regex_test m cs\<close> by (metis regex_test.simps(2))
    qed
  next
    case (Some n)
    then have "c # cs = [] @ (c # cs)
        \<and> replace_all m r (c # cs)
          = [] @ r @ (if n = 0 then c # replace_all m r cs else replace_all m r (drop (n - 1) cs))"
      by simp
    then show ?thesis
      using Some by (metis option.distinct(1) regex_test.simps(2))
  qed
qed

lemma replace_all_unchanged: "\<not> regex_test m s \<Longrightarrow> replace_all m r s = s"
  using replace_all_shape [of m s r] by blast

lemma replace_all_inserts:
  "regex_test m s \<Longrightarrow> \<exists>u x. replace_all m r s = u @ r @ x"
  using replace_all_shape [of m s r] by blast

text \<open>After the host pattern has been replaced everywhere, it matches nowhere.\<close>

lemma host_replaced:
  "\<not> regex_test match_host (replace_all match_host ''http://localhost:9980'' s)"
proof (induction match_host "''http://localhost:9980''" s rule: replace_all.induct)
  case 1
  show ?case
    by (simp add: match_host_def strip_prefix_def)
next
  case (2 c cs)
  show ?case
  proof (cases "match_host (c # cs)")
    case None
    have rest: "\<not> regex_test match_host (replace_all match_host ''http://localhost:9980'' cs)"
      using 2(1) [OF None] .
    have "match_host (c # replace_all match_host ''http://localhost:9980'' cs) = None"
    proof (rule ccontr)
      assume "match_host (c # replace_all match_host ''http://localhost:9980'' cs) \<noteq> None"
      then obtain n where
        n: "match_host (c # replace_all match_host ''http://localhost:9980'' cs) = Some n"
        by blast
      from replace_all_shape [of match_host cs "''http://localhost:9980''"]
      consider "replace_all match_host ''http://localhost:9980'' cs = cs"
        | u t x where "cs = u @ t"
          "replace_all match_host ''http://localhost:9980'' cs = u @ ''http://localhost:9980'' @ x"
        by blast
      then show False
      proof cases
        case 1
        then show ?thesis
          using n None by simp
      next
        case 2
        then have m: "match_host ((c # u) @ ''http://localhost:9980'' @ x) = Some n"
          using n by simp
        then have "n \<le> length (c # u)"
          by (rule match_host_not_into_replacement)
        with m have "match_host ((c # u) @ t) = Some n"
          by (rule match_host_prefix)
        then show ?thesis
          using None 2(1) by simp
      qed
    qed
    then show ?thesis
      using None rest by simp
  next
    case (Some n)
    then have "n \<noteq> 0"
      by (auto dest: match_host_SomeD)
    then have "\<not> regex_test match_host
                 (replace_all match_host ''http://localhost:9980'' (drop (n - 1) cs))"
      using 2(3) [OF Some] by simp
    then have "\<not> regex_test match_host
                 (''http://localhost:9980''
                  @ replace_all match_host ''http://localhost:9980'' (drop (n - 1) cs))"
      by (simp only: no_match_in_replacement not_False_eq_True)
    then show ?thesis
      using Some \<open>n \<noteq> 0\<close> by simp
  qed
qed

lemma js_includes_iff: "js_includes s sub \<longleftrightarrow> (\<exists>u t. s = u @ sub @ t)"
proof (induction s)
  case Nil
  then show ?case by simp
next
  case (Cons c cs)
  show ?case
  proof
    assume "js_includes (c # cs) sub"
    then consider "prefix sub (c # cs)" | "js_includes cs sub"
      by auto
    then show "\<exists>u t. c # cs = u @ sub @ t"
    proof cases
      case 1
      then obtain t where "c # cs = [] @ sub @ t"
        by (auto simp: prefix_def)
      then show ?thesis by blast
    next
      case 2
      then obtain u t where "cs = u @ sub @ t"
        using Cons.IH by blast
      then have "c # cs = (c # u) @ sub @ t"
        by simp
      then show ?thesis by blast
    qed
  next
    assume "\<exists>u t. c # cs = u @ sub @ t"
    then obtain u t where e: "c # cs = u @ sub @ t"
      by blast
    show "js_includes (c # cs) sub"
    proof (cases u)
      case Nil
      then have "prefix sub (c # cs)"
        using e by (simp add: prefix_def)
      then show ?thesis by simp
    next
      case (Cons d u')
      then have "cs = u' @ sub @ t"
        using e by simp
      then have "js_includes cs sub"
        using Cons.IH by blast
      then show ?thesis by simp
    qed
  qed
qed

lemma skip_spaces_drop: "\<exists>k. skip_spaces s = drop k s"
proof (induction s rule: skip_spaces.induct)
  case (1 s)
  show ?case
  proof (cases "space_length s = 0")
    case True
    then have "skip_spaces s = drop 0 s"
      by simp
    then show ?thesis by blast
  next
    case False
    then obtain k where "skip_spaces (drop (space_length s) s) = drop k (drop (space_length s) s)"
      using 1 by blast
    then have "skip_spaces s = drop (k + space_length s) s"
      using False by simp
    then show ?thesis by blast
  qed
qed

text \<open>Where the endpoint pattern matches, the host pattern matches inside the match.\<close>

lemma match_endpoint_host:
  assumes "match_endpoint s = Some n"
  shows "regex_test match_host s"
proof -
  from assms obtain rest where r: "strip_prefix ''endpoint:'' s = Some rest"
    by (cases "strip_prefix ''endpoint:'' s") (simp_all add: match_endpoint_def)
  with assms obtain url where u: "strip_prefix [CHR 0x22] (skip_spaces rest) = Some url"
    by (cases "strip_prefix [CHR 0x22] (skip_spaces rest)") (simp_all add: match_endpoint_def)
  with assms r obtain k where k: "match_host url = Some k"
    by (cases "match_host url") (simp_all add: match_endpoint_def)
  from r have s: "s = ''endpoint:'' @ rest"
    by (simp only: strip_prefix_Some)
  from u have sk: "skip_spaces rest = [CHR 0x22] @ url"
    by (simp only: strip_prefix_Some)
  obtain j where j: "skip_spaces rest = drop j rest"
    using skip_spaces_drop by blast
  have "rest = drop 9 s"
    using s by simp
  moreover have "url = drop 1 (skip_spaces rest)"
    using sk by simp
  ultimately have "url = drop (1 + j + 9) s"
    using j by (metis drop_drop add.assoc)
  then have "match_host (drop (1 + j + 9) s) \<noteq> None"
    using k by simp
  then show ?thesis
    unfolding regex_test_iff by blast
qed

lemma regex_endpoint_host:
  assumes "regex_test match_endpoint s"
  shows "regex_test match_host s"
proof -
  from assms obtain j n where "match_endpoint (drop j s) = Some n"
    unfolding regex_test_iff by blast
  then have "regex_test match_host (drop j s)"
    by (rule match_endpoint_host)
  then obtain i where "match_host (drop i (drop j s)) \<noteq> None"
    unfolding regex_test_iff by blast
  then have "match_host (drop (i + j) s) \<noteq> None"
    by simp
  then show ?thesis
    unfolding regex_test_iff by blast
qed


lemma includes_localhost:
  "js_includes (u @ ''http://localhost:9980'' @ x) ''localhost:9980''"
  "js_includes (u @ ''endpoint: \"http://localhost:9980\"'' @ x) ''localhost:9980''"
proof -
  have "u @ ''http://localhost:9980'' @ x = (u @ ''http://'') @ ''localhost:9980'' @ x"
    by simp
  then show "js_includes (u @ ''http://localhost:9980'' @ x) ''localhost:9980''"
    unfolding js_includes_iff by blast
  have "u @ ''endpoint: \"http://localhost:9980\"'' @ x
        = (u @ ''endpoint: \"http://'') @ ''localhost:9980'' @ ([CHR 0x22] @ x)"
    by simp
  then show "js_includes (u @ ''endpoint: \"http://localhost:9980\"'' @ x) ''localhost:9980''"
    unfolding js_includes_iff by blast
qed

text \<open>
  The loop over the two patterns, on a text in which one of them matches: the result is
  marked as patched, neither pattern matches in it any more, and it reads as patched.
\<close>

lemma patterns_loop:
  "foldl apply_pattern (content, False) patterns =
     (let c1 = (if regex_test match_endpoint content
                then replace_all match_endpoint ''endpoint: \"http://localhost:9980\"'' content
                else content);
          c2 = (if regex_test match_host c1
                then replace_all match_host ''http://localhost:9980'' c1 else c1)
      in (c2, regex_test match_endpoint content \<or> regex_test match_host c1))"
  by (simp add: patterns_def apply_pattern_def Let_def)


lemma patterns_matched:
  assumes "regex_test match_endpoint content \<or> regex_test match_host content"
  shows "\<exists>patched. foldl apply_pattern (content, False) patterns = (patched, True)
           \<and> \<not> regex_test match_host patched
           \<and> js_includes patched ''localhost:9980''"
proof -
  define c1 where "c1 = (if regex_test match_endpoint content
                then replace_all match_endpoint ''endpoint: \"http://localhost:9980\"'' content
                else content)"
  define c2 where "c2 = (if regex_test match_host c1
                then replace_all match_host ''http://localhost:9980'' c1 else c1)"
  have loop: "foldl apply_pattern (content, False) patterns
              = (c2, regex_test match_endpoint content \<or> regex_test match_host c1)"
    by (simp add: patterns_loop c1_def c2_def)
  have flag: "regex_test match_endpoint content \<or> regex_test match_host c1"
    using assms by (auto simp: c1_def)
  have clean: "\<not> regex_test match_host c2"
    by (simp add: c2_def host_replaced)
  have "js_includes c2 ''localhost:9980''"
  proof (cases "regex_test match_host c1")
    case True
    then have c2e: "c2 = replace_all match_host ''http://localhost:9980'' c1"
      by (simp add: c2_def)
    from replace_all_inserts [OF True] obtain u x where
      "replace_all match_host ''http://localhost:9980'' c1 = u @ ''http://localhost:9980'' @ x"
      by blast
    then show ?thesis
      unfolding c2e by (simp only: includes_localhost)
  next
    case False
    then have e: "regex_test match_endpoint content"
      using flag by simp
    then have c2e: "c2 = replace_all match_endpoint ''endpoint: \"http://localhost:9980\"'' content"
      using False by (simp add: c2_def c1_def)
    from replace_all_inserts [OF e] obtain u x where
      "replace_all match_endpoint ''endpoint: \"http://localhost:9980\"'' content
       = u @ ''endpoint: \"http://localhost:9980\"'' @ x"
      by blast
    then show ?thesis
      unfolding c2e by (simp only: includes_localhost)
  qed
  then show ?thesis
    using loop flag clean by simp
qed

section \<open>Locating the extension after a write\<close>

lemma candidate_not_backup:
  assumes "c \<in> set (possiblePaths env home)"
  shows "c \<noteq> x @ ''.backup''"
proof
  assume e: "c = x @ ''.backup''"
  then have l: "last c = CHR ''p''" and b: "last (butlast c) = CHR ''u''"
    by (simp_all add: butlast_append)
  from assms consider y where "c = y @ ''Kiro''" | y where "c = y @ ''Kiro.app''"
    | y where "c = y @ ''current''"
  proof (cases "isWindows env")
    case True
    with assms have "c = (home @ env_separator env @ ''AppData'' @ env_separator env @ ''Local''
        @ env_separator env @ ''Programs'' @ env_separator env) @ ''Kiro''"
      by (simp add: possiblePaths_def path_join_def)
    then show ?thesis
      using that(1) by blast
  next
    case False
    show ?thesis
    proof (cases "isMac env")
      case True
      with assms \<open>\<not> isWindows env\<close> have
        "c = ''/Applications/'' @ ''Kiro.app''
         \<or> c = (home @ env_separator env @ ''Applications'' @ env_separator env) @ ''Kiro.app''"
        by (simp add: possiblePaths_def path_join_def)
      then show ?thesis
        using that(2) by blast
    next
      case False
      with assms \<open>\<not> isWindows env\<close> have
        "c = (home @ env_separator env @ ''.local'' @ env_separator env @ ''share''
               @ env_separator env) @ ''Kiro''
         \<or> c = ''/opt/'' @ ''Kiro''
         \<or> c = (home @ env_separator env @ ''snap'' @ env_separator env @ ''kiro''
               @ env_separator env) @ ''current''"
        by (simp add: possiblePaths_def path_join_def)
      then show ?thesis
        using that(1,3) by blast
    qed
  qed
  then show False
  proof cases
    case 1
    then show ?thesis using l by simp
  next
    case 2
    then show ?thesis using b by (simp add: butlast_append)
  next
    case 3
    then show ?thesis using l by simp
  qed
qed

lemma getKiroPath_update:
  assumes "fs path \<noteq> None \<or> (\<exists>x. path = x @ ''.backup'')"
  shows "getKiroPath env (fs(path \<mapsto> node)) = getKiroPath env fs"
proof (cases "env_home env")
  case None
  then show ?thesis
    by (simp add: getKiroPath_def)
next
  case (Some home)
  have "fs_exists (fs(path \<mapsto> node)) c = fs_exists fs c" if "c \<in> set (possiblePaths env home)" for c
    using assms candidate_not_backup [OF that] by (auto simp: fs_exists_def)
  then have "find (fs_exists (fs(path \<mapsto> node))) (possiblePaths env home)
             = find (fs_exists fs) (possiblePaths env home)"
    by (intro find_cong) auto
  then show ?thesis
    using Some by (simp add: getKiroPath_def)
qed

lemma getExtensionPath_update:
  assumes "fs path \<noteq> None \<or> (\<exists>x. path = x @ ''.backup'')"
  shows "getExtensionPath env (fs(path \<mapsto> node)) = getExtensionPath env fs"
  by (simp add: getExtensionPath_def getKiroPath_update [of fs path, OF assms])


lemma valid_is_located:
  "getValidExtensionPath env fs = Some p \<Longrightarrow> getExtensionPath env fs = Some p"
  by (auto simp: getValidExtensionPath_def split: option.splits if_splits)

section \<open>Decoding text\<close>

lemma continuation_le: "continuation n lower upper bs \<le> length bs"
  by (induction n lower upper bs rule: continuation.induct) simp_all

lemma continuation_le_needed: "continuation n lower upper bs \<le> n"
proof (induction n lower upper bs rule: continuation.induct)
  case (1 n lower upper)
  then show ?case by simp
next
  case (2 n lower upper b bs)
  then show ?case by (cases n) auto
qed

lemma continuation_0: "continuation 0 lower upper bs = 0"
  by (cases bs) simp_all

lemma bytes_needed_le: "bytes_needed b \<le> 3"
  by (simp add: bytes_needed_def Let_def)

lemma lower_boundary_ge: "0x80 \<le> lower_boundary b"
  by (simp add: lower_boundary_def)

lemma utf8_decode_ascii: "ascii b \<Longrightarrow> utf8_decode (b # bs) = b # utf8_decode bs"
  by simp

lemma utf8_decode_valid:
  assumes "\<not> ascii b" and "bytes_needed b \<noteq> 0"
    and "continuation (bytes_needed b) (lower_boundary b) (upper_boundary b) bs = bytes_needed b"
  shows "utf8_decode (b # bs)
         = b # take (bytes_needed b) bs @ utf8_decode (drop (bytes_needed b) bs)"
  using assms by (simp add: Let_def)

lemma utf8_decode_invalid:
  assumes "\<not> ascii b"
    and "continuation (bytes_needed b) (lower_boundary b) (upper_boundary b) bs = seen"
    and "bytes_needed b = 0 \<or> seen \<noteq> bytes_needed b"
  shows "utf8_decode (b # bs) = replacement_character @ utf8_decode (drop seen bs)"
  using assms by (auto simp: Let_def)

declare utf8_decode.simps(2) [simp del]

lemma continuation_ascii:
  "ascii a \<Longrightarrow> 0x80 \<le> lower \<Longrightarrow>
   continuation n lower upper (bs @ a # r) = continuation n lower upper bs"
  by (induction n lower upper bs rule: continuation.induct) (simp_all add: ascii_def)

text \<open>An ASCII byte ends whatever sequence is open, so decoding splits at it.\<close>

lemma utf8_decode_ascii_split:
  "ascii a \<Longrightarrow> utf8_decode (p @ a # r) = utf8_decode p @ a # utf8_decode r"
proof (induction p rule: length_induct)
  case (1 p)
  show ?case
  proof (cases p)
    case Nil
    then show ?thesis
      using 1(2) by (simp add: utf8_decode_ascii)
  next
    case (Cons b bs)
    show ?thesis
    proof (cases "ascii b")
      case True
      have "utf8_decode (bs @ a # r) = utf8_decode bs @ a # utf8_decode r"
        using 1 Cons by simp
      then show ?thesis
        using True Cons by (simp add: utf8_decode_ascii)
    next
      case False
      define needed where "needed = bytes_needed b"
      define seen where
        "seen = continuation (bytes_needed b) (lower_boundary b) (upper_boundary b) bs"
      have same: "continuation (bytes_needed b) (lower_boundary b) (upper_boundary b) (bs @ a # r)
                  = seen"
        unfolding seen_def using 1(2) lower_boundary_ge by (rule continuation_ascii)
      have le: "seen \<le> length bs"
        unfolding seen_def by (rule continuation_le)
      have "length (drop seen bs) < length p"
        using Cons by simp
      then have IH: "utf8_decode (drop seen bs @ a # r)
                     = utf8_decode (drop seen bs) @ a # utf8_decode r"
        using 1 by blast
      have td: "take seen (bs @ a # r) = take seen bs" "drop seen (bs @ a # r) = drop seen bs @ a # r"
        using le by simp_all
      show ?thesis
      proof (cases "bytes_needed b \<noteq> 0 \<and> seen = bytes_needed b")
        case True
        then have n: "bytes_needed b \<noteq> 0" and s: "seen = bytes_needed b"
          by simp_all
        have "utf8_decode (b # (bs @ a # r))
              = b # take (bytes_needed b) (bs @ a # r)
                @ utf8_decode (drop (bytes_needed b) (bs @ a # r))"
          using False n same [unfolded s] by (rule utf8_decode_valid)
        also have "\<dots> = b # take (bytes_needed b) bs
                         @ utf8_decode (drop (bytes_needed b) bs) @ a # utf8_decode r"
          using td IH unfolding s by simp
        also have "\<dots> = utf8_decode (b # bs) @ a # utf8_decode r"
          using utf8_decode_valid [OF False n seen_def [symmetric, unfolded s]] by simp
        finally show ?thesis
          unfolding Cons by simp
      next
        case no: False
        then have no': "bytes_needed b = 0 \<or> seen \<noteq> bytes_needed b"
          by simp
        have "utf8_decode (b # (bs @ a # r))
              = replacement_character @ utf8_decode (drop seen (bs @ a # r))"
          using False same no' by (rule utf8_decode_invalid)
        also have "\<dots> = replacement_character @ utf8_decode (drop seen bs) @ a # utf8_decode r"
          using td IH by simp
        also have "\<dots> = utf8_decode (b # bs) @ a # utf8_decode r"
          using utf8_decode_invalid [OF False seen_def [symmetric] no'] by simp
        finally show ?thesis
          unfolding Cons by simp
      qed
    qed
  qed
qed

lemma utf8_decode_length: "length s \<le> length (utf8_decode s)"
proof (induction s rule: length_induct)
  case (1 s)
  show ?case
  proof (cases s)
    case Nil
    then show ?thesis by simp
  next
    case (Cons b bs)
    show ?thesis
    proof (cases "ascii b")
      case True
      then show ?thesis
        using 1 Cons by (simp add: utf8_decode_ascii)
    next
      case False
      define seen where
        "seen = continuation (bytes_needed b) (lower_boundary b) (upper_boundary b) bs"
      have le: "seen \<le> length bs" "seen \<le> bytes_needed b" "bytes_needed b \<le> 3"
        unfolding seen_def using continuation_le continuation_le_needed bytes_needed_le
        by auto
      have "length (drop seen bs) < length s"
        using Cons by simp
      then have IH: "length (drop seen bs) \<le> length (utf8_decode (drop seen bs))"
        using 1 by blast
      show ?thesis
      proof (cases "bytes_needed b \<noteq> 0 \<and> seen = bytes_needed b")
        case True
        then have n: "bytes_needed b \<noteq> 0" and s: "seen = bytes_needed b"
          by simp_all
        have "utf8_decode (b # bs)
              = b # take (bytes_needed b) bs @ utf8_decode (drop (bytes_needed b) bs)"
          using False n seen_def [symmetric, unfolded s] by (rule utf8_decode_valid)
        then show ?thesis
          unfolding Cons using le IH unfolding s by simp
      next
        case no: False
        then have no': "bytes_needed b = 0 \<or> seen \<noteq> bytes_needed b"
          by simp
        then have "seen \<le> 2"
          using le by auto
        moreover have "utf8_decode (b # bs) = replacement_character @ utf8_decode (drop seen bs)"
          using False seen_def [symmetric] no' by (rule utf8_decode_invalid)
        ultimately show ?thesis
          unfolding Cons using le(1) IH by (simp add: replacement_character_def)
      qed
    qed
  qed
qed

text \<open>Well-formed text is what decoding leaves as it is.\<close>

lemma utf8_decode_fixed_split:
  assumes "ascii a"
  shows "utf8_decode (p @ a # r) = p @ a # r \<longleftrightarrow> utf8_decode p = p \<and> utf8_decode r = r"
proof
  assume e: "utf8_decode (p @ a # r) = p @ a # r"
  then have split: "utf8_decode p @ a # utf8_decode r = p @ a # r"
    using assms by (simp add: utf8_decode_ascii_split)
  then have "length (utf8_decode p @ a # utf8_decode r) = length (p @ a # r)"
    by simp
  then have "length (utf8_decode p) + length (utf8_decode r) = length p + length r"
    by simp
  moreover have "length p \<le> length (utf8_decode p)" "length r \<le> length (utf8_decode r)"
    by (rule utf8_decode_length)+
  ultimately have "length (utf8_decode p) = length p"
    by linarith
  with split show "utf8_decode p = p \<and> utf8_decode r = r"
    by simp
next
  assume "utf8_decode p = p \<and> utf8_decode r = r"
  then show "utf8_decode (p @ a # r) = p @ a # r"
    using assms by (simp add: utf8_decode_ascii_split)
qed

lemma utf8_decode_ascii_prefix:
  "\<forall>c\<in>set t. ascii c \<Longrightarrow> utf8_decode (t @ r) = t @ utf8_decode r"
  by (induction t) (simp_all add: utf8_decode_ascii)

lemma utf8_decode_ascii_text: "\<forall>c\<in>set s. ascii c \<Longrightarrow> utf8_decode s = s"
  using utf8_decode_ascii_prefix [of s "[]"] by simp

lemma utf8_decode_insert:
  assumes "utf8_decode p = p" and "utf8_decode r = r" and "\<forall>c\<in>set t. ascii c" and "t \<noteq> []"
  shows "utf8_decode (p @ t @ r) = p @ t @ r"
proof -
  from assms(4) obtain a t' where t: "t = a # t'"
    by (cases t) auto
  then have a: "ascii a" and t': "\<forall>c\<in>set t'. ascii c"
    using assms(3) by simp_all
  have "utf8_decode (t' @ r) = t' @ r"
    using t' assms(2) by (simp add: utf8_decode_ascii_prefix)
  then have "utf8_decode (p @ a # (t' @ r)) = p @ a # (t' @ r)"
    using a assms(1) by (simp only: utf8_decode_fixed_split)
  then show ?thesis
    by (simp add: t)
qed

text \<open>Decoding gives well-formed text.\<close>

lemma continuation_take:
  "continuation n lower upper bs = n \<Longrightarrow>
   n \<le> length bs \<and> continuation n lower upper (take n bs @ r) = n"
proof (induction n lower upper bs rule: continuation.induct)
  case (1 n lower upper)
  then show ?case by (simp add: continuation_0)
next
  case (2 n lower upper b bs)
  show ?case
  proof (cases n)
    case 0
    then show ?thesis by (simp add: continuation_0)
  next
    case (Suc k)
    with 2(2) have in_bounds: "lower \<le> (of_char b :: nat) \<and> (of_char b :: nat) \<le> upper"
      and rest: "continuation k 0x80 0xBF bs = k"
      by (simp_all split: if_splits)
    from 2(1) Suc in_bounds rest have "k \<le> length bs \<and> continuation k 0x80 0xBF (take k bs @ r) = k"
      by simp
    then show ?thesis
      using Suc in_bounds by simp
  qed
qed

lemma utf8_decode_sequence:
  assumes "\<not> ascii b" and "bytes_needed b \<noteq> 0"
    and "continuation (bytes_needed b) (lower_boundary b) (upper_boundary b) bs = bytes_needed b"
  shows "utf8_decode (b # take (bytes_needed b) bs @ r)
         = b # take (bytes_needed b) bs @ utf8_decode r"
proof -
  from continuation_take [OF assms(3)] have le: "bytes_needed b \<le> length bs"
    and c: "continuation (bytes_needed b) (lower_boundary b) (upper_boundary b)
              (take (bytes_needed b) bs @ r) = bytes_needed b"
    by simp_all
  have "utf8_decode (b # (take (bytes_needed b) bs @ r))
        = b # take (bytes_needed b) (take (bytes_needed b) bs @ r)
          @ utf8_decode (drop (bytes_needed b) (take (bytes_needed b) bs @ r))"
    using assms(1,2) c by (rule utf8_decode_valid)
  then show ?thesis
    using le by simp
qed

lemma utf8_decode_replacement:
  "utf8_decode (replacement_character @ r) = replacement_character @ utf8_decode r"
  by (simp add: replacement_character_def utf8_decode.simps(2) ascii_def bytes_needed_def
      lower_boundary_def upper_boundary_def continuation_0)

lemma utf8_decode_byte_order_mark:
  "utf8_decode (byte_order_mark @ r) = byte_order_mark @ utf8_decode r"
  by (simp add: byte_order_mark_def utf8_decode.simps(2) ascii_def bytes_needed_def
      lower_boundary_def upper_boundary_def continuation_0)

lemma utf8_decode_idem: "utf8_decode (utf8_decode s) = utf8_decode s"
proof (induction s rule: length_induct)
  case (1 s)
  show ?case
  proof (cases s)
    case Nil
    then show ?thesis by simp
  next
    case (Cons b bs)
    show ?thesis
    proof (cases "ascii b")
      case True
      then show ?thesis
        using 1 Cons by (simp add: utf8_decode_ascii)
    next
      case False
      define seen where
        "seen = continuation (bytes_needed b) (lower_boundary b) (upper_boundary b) bs"
      have "length (drop seen bs) < length s"
        using Cons by simp
      then have IH: "utf8_decode (utf8_decode (drop seen bs)) = utf8_decode (drop seen bs)"
        using 1 by blast
      show ?thesis
      proof (cases "bytes_needed b \<noteq> 0 \<and> seen = bytes_needed b")
        case True
        then have n: "bytes_needed b \<noteq> 0" and s: "seen = bytes_needed b"
          by simp_all
        have d: "utf8_decode (b # bs)
              = b # take (bytes_needed b) bs @ utf8_decode (drop (bytes_needed b) bs)"
          using False n seen_def [symmetric, unfolded s] by (rule utf8_decode_valid)
        have "utf8_decode (b # take (bytes_needed b) bs @ utf8_decode (drop (bytes_needed b) bs))
              = b # take (bytes_needed b) bs
                @ utf8_decode (utf8_decode (drop (bytes_needed b) bs))"
          using False n seen_def [symmetric, unfolded s] by (rule utf8_decode_sequence)
        then show ?thesis
          unfolding Cons d using IH unfolding s by simp
      next
        case no: False
        then have no': "bytes_needed b = 0 \<or> seen \<noteq> bytes_needed b"
          by simp
        have d: "utf8_decode (b # bs) = replacement_character @ utf8_decode (drop seen bs)"
          using False seen_def [symmetric] no' by (rule utf8_decode_invalid)
        show ?thesis
          unfolding Cons d using IH by (simp add: utf8_decode_replacement)
      qed
    qed
  qed
qed

text \<open>
  What \<^verbatim>\<open>TextDecoder\<close> returns is well-formed, and reading well-formed text back drops at
  most a byte order mark at its start.
\<close>

lemma TextDecoder_decode_cases:
  "TextDecoder_decode bytes = utf8_decode bytes
   \<or> utf8_decode bytes = byte_order_mark @ TextDecoder_decode bytes"
  by (auto simp: TextDecoder_decode_def Let_def prefix_def byte_order_mark_def)

lemma TextDecoder_decode_well_formed:
  "utf8_decode (TextDecoder_decode bytes) = TextDecoder_decode bytes"
proof -
  from TextDecoder_decode_cases [of bytes] show ?thesis
  proof
    assume "TextDecoder_decode bytes = utf8_decode bytes"
    then show ?thesis
      by (simp add: utf8_decode_idem)
  next
    assume e: "utf8_decode bytes = byte_order_mark @ TextDecoder_decode bytes"
    have "utf8_decode (utf8_decode bytes) = utf8_decode bytes"
      by (rule utf8_decode_idem)
    then have "byte_order_mark @ utf8_decode (TextDecoder_decode bytes)
               = byte_order_mark @ TextDecoder_decode bytes"
      unfolding e by (simp only: utf8_decode_byte_order_mark)
    then show ?thesis
      by simp
  qed
qed

lemma TextDecoder_decode_suffix:
  assumes "utf8_decode t = t"
  shows "\<exists>k. TextDecoder_decode t = drop k t
              \<and> (k = 0 \<or> k = 3 \<and> take 3 t = byte_order_mark)"
proof (cases "prefix byte_order_mark t")
  case True
  then have "TextDecoder_decode t = drop 3 t \<and> take 3 t = byte_order_mark"
    using assms by (auto simp: TextDecoder_decode_def Let_def prefix_def byte_order_mark_def)
  then show ?thesis
    by blast
next
  case False
  then have "TextDecoder_decode t = drop 0 t"
    using assms by (simp add: TextDecoder_decode_def Let_def)
  then show ?thesis
    by blast
qed

lemma TextDecoder_decode_ascii: "\<forall>c\<in>set s. ascii c \<Longrightarrow> TextDecoder_decode s = s"
proof -
  assume a: "\<forall>c\<in>set s. ascii c"
  then have d: "utf8_decode s = s"
    by (rule utf8_decode_ascii_text)
  have "\<not> prefix byte_order_mark s"
  proof
    assume "prefix byte_order_mark s"
    then have "CHR 0xEF \<in> set s"
      by (auto simp: prefix_def byte_order_mark_def)
    with a have "ascii (CHR 0xEF)"
      by blast
    then show False
      by (simp add: ascii_def)
  qed
  then show ?thesis
    using d by (simp add: TextDecoder_decode_def Let_def)
qed

section \<open>Patterns on well-formed text\<close>

text \<open>A match of either pattern starts and ends with an ASCII character.\<close>

lemma match_host_bounds:
  assumes "match_host s = Some n"
  shows "2 \<le> n \<and> (\<exists>u v. s = CHR ''h'' # u @ CHR ''m'' # v \<and> n = length u + 2)"
proof -
  from match_host_SomeD [OF assms] obtain region t where
    s: "s = ''https://q.'' @ region @ ''.amazonaws.com'' @ t" and n: "n = 24 + length region"
    by blast
  have "s = CHR ''h'' # (''ttps://q.'' @ region @ ''.amazonaws.co'') @ CHR ''m'' # t"
    by (simp add: s)
  moreover have "n = length (''ttps://q.'' @ region @ ''.amazonaws.co'') + 2"
    by (simp add: n)
  ultimately show ?thesis
    by (metis le_add2)
qed

lemma match_endpoint_bounds:
  assumes "match_endpoint s = Some n"
  shows "2 \<le> n \<and> (\<exists>u v. s = CHR ''e'' # u @ CHR 0x22 # v \<and> n = length u + 2)"
proof -
  from assms obtain rest where r: "strip_prefix ''endpoint:'' s = Some rest"
    by (cases "strip_prefix ''endpoint:'' s") (simp_all add: match_endpoint_def)
  with assms obtain url where u: "strip_prefix [CHR 0x22] (skip_spaces rest) = Some url"
    by (cases "strip_prefix [CHR 0x22] (skip_spaces rest)") (simp_all add: match_endpoint_def)
  with assms r obtain k where k: "match_host url = Some k"
    by (cases "match_host url") (simp_all add: match_endpoint_def)
  with assms r u obtain x where q: "strip_prefix [CHR 0x22] (drop k url) = Some x"
    by (cases "strip_prefix [CHR 0x22] (drop k url)") (simp_all add: match_endpoint_def)
  have n: "n = length s - length url + k + 1"
    using assms r u k q by (simp add: match_endpoint_def)
  from r have s: "s = ''endpoint:'' @ rest"
    by (simp only: strip_prefix_Some)
  from u have sk: "skip_spaces rest = CHR 0x22 # url"
    by (simp add: strip_prefix_Some)
  from q have dk: "drop k url = CHR 0x22 # x"
    by (simp add: strip_prefix_Some)
  obtain j where j: "skip_spaces rest = drop j rest"
    using skip_spaces_drop by blast
  have dj: "drop j rest = CHR 0x22 # url"
    using j sk by (simp only:)
  have rest: "rest = take j rest @ CHR 0x22 # url"
    using append_take_drop_id [of j rest] by (simp only: dj)
  have url: "url = take k url @ CHR 0x22 # x"
    using append_take_drop_id [of k url] by (simp only: dk)
  have kl: "k \<le> length url"
    using dk by (metis drop_all linorder_le_cases list.distinct(1))
  define pre where "pre = take j rest"
  define w where "w = ''ndpoint:'' @ pre @ CHR 0x22 # take k url"
  have rest': "rest = pre @ CHR 0x22 # url"
    using rest by (simp only: pre_def)
  have "s = ''endpoint:'' @ pre @ CHR 0x22 # url"
    using s rest' by (simp only:)
  then have len: "length s = 10 + length pre + length url"
    by simp
  have "s = ''endpoint:'' @ pre @ CHR 0x22 # take k url @ CHR 0x22 # x"
    using s rest' url by metis
  then have shape: "s = CHR ''e'' # w @ CHR 0x22 # x"
    by (simp add: w_def)
  have "length w = 9 + length pre + k"
    using kl by (simp add: w_def)
  then have "n = length w + 2"
    using n len by simp
  then show ?thesis
    using shape by (metis le_add2)
qed

text \<open>
  Replacing matches that start and end with an ASCII character by ASCII text leaves
  well-formed text well-formed.
\<close>

lemma replace_all_well_formed:
  assumes "\<And>s n. m s = Some n \<Longrightarrow>
             2 \<le> n \<and> (\<exists>a u z v. ascii a \<and> ascii z \<and> s = a # u @ z # v \<and> n = length u + 2)"
    and "\<forall>c\<in>set replacement. ascii c" and "replacement \<noteq> []"
    and "utf8_decode (p @ s) = p @ s"
  shows "utf8_decode (p @ replace_all m replacement s) = p @ replace_all m replacement s"
  using assms
proof (induction m replacement s arbitrary: p rule: replace_all.induct)
  case (1 m replacement)
  have "m [] = None"
  proof (cases "m []")
    case (Some n)
    from 1(1) [OF Some] show ?thesis
      by auto
  qed simp
  then show ?case
    using 1(4) by simp
next
  case (2 m replacement c cs)
  show ?case
  proof (cases "m (c # cs)")
    case None
    have "utf8_decode ((p @ [c]) @ cs) = (p @ [c]) @ cs"
      using 2(7) by simp
    with 2(1) [OF None 2(4,5,6)]
    have "utf8_decode ((p @ [c]) @ replace_all m replacement cs)
          = (p @ [c]) @ replace_all m replacement cs"
      by blast
    then show ?thesis
      using None by simp
  next
    case (Some n)
    from 2(4) [OF Some] obtain a u z v where n: "2 \<le> n" and a: "ascii a" and z: "ascii z"
      and s: "c # cs = a # u @ z # v" and nu: "n = length u + 2"
      by blast
    have nz: "n \<noteq> 0"
      using n by simp
    have cs: "cs = u @ z # v" and c: "c = a"
      using s by simp_all
    have rest: "drop (n - 1) cs = v"
      by (simp add: cs nu)
    have "utf8_decode (p @ a # (u @ z # v)) = p @ a # (u @ z # v)"
      using 2(7) by (simp add: cs c)
    then have wp: "utf8_decode p = p" and "utf8_decode (u @ z # v) = u @ z # v"
      using a by (simp_all only: utf8_decode_fixed_split)
    then have wv: "utf8_decode v = v"
      using z by (simp only: utf8_decode_fixed_split)
    have "utf8_decode (p @ replacement @ v) = p @ replacement @ v"
      using wp wv 2(5,6) by (rule utf8_decode_insert)
    then have "utf8_decode ((p @ replacement) @ v) = (p @ replacement) @ v"
      by simp
    with 2(3) [OF Some nz 2(4,5,6)]
    have "utf8_decode ((p @ replacement) @ replace_all m replacement (drop (n - 1) cs))
          = (p @ replacement) @ replace_all m replacement (drop (n - 1) cs)"
      unfolding rest by blast
    then show ?thesis
      using Some nz by simp
  qed
qed

lemma replace_host_well_formed:
  assumes "utf8_decode s = s"
  shows "utf8_decode (replace_all match_host ''http://localhost:9980'' s)
         = replace_all match_host ''http://localhost:9980'' s"
proof -
  have "utf8_decode ([] @ replace_all match_host ''http://localhost:9980'' s)
        = [] @ replace_all match_host ''http://localhost:9980'' s"
  proof (rule replace_all_well_formed)
    fix t n
    assume "match_host t = Some n"
    from match_host_bounds [OF this] obtain u v where
      "2 \<le> n" "t = CHR ''h'' # u @ CHR ''m'' # v" "n = length u + 2"
      by blast
    moreover have "ascii CHR ''h''" "ascii CHR ''m''"
      by (simp_all add: ascii_def)
    ultimately show "2 \<le> n \<and> (\<exists>a u z v. ascii a \<and> ascii z \<and> t = a # u @ z # v \<and> n = length u + 2)"
      by blast
  qed (simp_all add: ascii_def assms)
  then show ?thesis
    by simp
qed

lemma replace_endpoint_well_formed:
  assumes "utf8_decode s = s"
  shows "utf8_decode (replace_all match_endpoint ''endpoint: \"http://localhost:9980\"'' s)
         = replace_all match_endpoint ''endpoint: \"http://localhost:9980\"'' s"
proof -
  have "utf8_decode ([] @ replace_all match_endpoint ''endpoint: \"http://localhost:9980\"'' s)
        = [] @ replace_all match_endpoint ''endpoint: \"http://localhost:9980\"'' s"
  proof (rule replace_all_well_formed)
    fix t n
    assume "match_endpoint t = Some n"
    from match_endpoint_bounds [OF this] obtain u v where
      "2 \<le> n" "t = CHR ''e'' # u @ CHR 0x22 # v" "n = length u + 2"
      by blast
    moreover have "ascii CHR ''e''" "ascii (CHR 0x22)"
      by (simp_all add: ascii_def)
    ultimately show "2 \<le> n \<and> (\<exists>a u z v. ascii a \<and> ascii z \<and> t = a # u @ z # v \<and> n = length u + 2)"
      by blast
  qed (simp_all add: ascii_def assms)
  then show ?thesis
    by simp
qed

lemma patterns_well_formed:
  assumes "utf8_decode content = content"
  shows "utf8_decode (fst (foldl apply_pattern (content, False) patterns))
         = fst (foldl apply_pattern (content, False) patterns)"
  using assms
  by (simp add: patterns_loop Let_def replace_host_well_formed replace_endpoint_well_formed)

text \<open>
  Reading back a well-formed text in which the host pattern matches nowhere and the
  bridge's address occurs: both still hold, with or without a byte order mark dropped.
\<close>

lemma regex_test_drop: "regex_test m (drop k s) \<Longrightarrow> regex_test m s"
proof -
  assume "regex_test m (drop k s)"
  then obtain j where "m (drop j (drop k s)) \<noteq> None"
    unfolding regex_test_iff by blast
  then have "m (drop (j + k) s) \<noteq> None"
    by simp
  then show ?thesis
    unfolding regex_test_iff by blast
qed

lemma reread_patched:
  assumes wf: "utf8_decode t = t"
    and clean: "\<not> regex_test match_host t"
    and bridge: "js_includes t ''localhost:9980''"
  shows "\<not> regex_test match_host (TextDecoder_decode t)
         \<and> js_includes (TextDecoder_decode t) ''localhost:9980''"
proof -
  from TextDecoder_decode_suffix [OF wf] obtain k where
    d: "TextDecoder_decode t = drop k t" and k: "k = 0 \<or> k = 3 \<and> take 3 t = byte_order_mark"
    by blast
  have "\<not> regex_test match_host (drop k t)"
    using clean regex_test_drop by blast
  moreover have "js_includes (drop k t) ''localhost:9980''"
  proof (cases "k = 0")
    case True
    then show ?thesis
      using bridge by simp
  next
    case False
    then have "take 3 t = byte_order_mark" and k3: "k = 3"
      using k by simp_all
    then have "t = byte_order_mark @ drop 3 t"
      by (metis append_take_drop_id)
    then have "js_includes (byte_order_mark @ drop 3 t) ''localhost:9980''"
      using bridge by simp
    then show ?thesis
      unfolding k3 by (simp add: byte_order_mark_def)
  qed
  ultimately show ?thesis
    by (simp add: d)
qed

section \<open>Patching and restoring\<close>

lemma backup_differs: "path @ ''.backup'' \<noteq> path" "path \<noteq> path @ ''.backup''"
  by simp_all

text \<open>
  What \<open>patchKiro\<close> does to a located file in whose text a pattern matches: the backup
  is made, as a copy of the bytes, unless one exists, and the file is overwritten with the
  rewritten text, which is well-formed, holds the bridge's address and has no match of the
  host pattern left.
\<close>

lemma patchKiro_patches:
  assumes loc: "getValidExtensionPath env fs = Some path"
    and isfile: "fs path = Some (File original)"
    and pat: "regex_test match_endpoint (TextDecoder_decode original)
              \<or> regex_test match_host (TextDecoder_decode original)"
  shows "\<exists>patched.
           foldl apply_pattern (TextDecoder_decode original, False) patterns = (patched, True)
         \<and> \<not> regex_test match_host patched
         \<and> js_includes patched ''localhost:9980''
         \<and> utf8_decode patched = patched
         \<and> patchKiro env fs
             = (succeeded,
                (if fs (path @ ''.backup'') = None
                 then fs(path @ ''.backup'' \<mapsto> File original) else fs)
                (path \<mapsto> File patched))"
proof -
  from patterns_matched [OF pat] obtain patched where
    loop: "foldl apply_pattern (TextDecoder_decode original, False) patterns = (patched, True)"
    and clean: "\<not> regex_test match_host patched"
    and bridge: "js_includes patched ''localhost:9980''"
    by blast
  have "utf8_decode (fst (foldl apply_pattern (TextDecoder_decode original, False) patterns))
        = fst (foldl apply_pattern (TextDecoder_decode original, False) patterns)"
    using TextDecoder_decode_well_formed by (rule patterns_well_formed)
  then have wf: "utf8_decode patched = patched"
    by (simp add: loop)
  define fs1 where "fs1 = (if fs (path @ ''.backup'') = None
                           then fs(path @ ''.backup'' \<mapsto> File original) else fs)"
  have copy: "(if \<not> fs_exists fs (path @ ''.backup'')
               then copyFile fs path (path @ ''.backup'') else Inr fs) = Inr fs1"
    using isfile by (auto simp: fs_exists_def copyFile_def fs1_def)
  have fs1_path: "fs1 path = Some (File original)"
    using isfile by (simp add: fs1_def)
  then have read: "readTextFile fs1 path = Inr (TextDecoder_decode original)"
    by (simp add: readTextFile_def)
  have wr: "writeTextFile fs1 path patched = Inr (fs1(path \<mapsto> File patched))"
    using fs1_path by (simp add: writeTextFile_def)
  have "patchKiro env fs = (succeeded, fs1(path \<mapsto> File patched))"
    by (simp add: patchKiro_def loc Let_def copy read loop wr)
  then show ?thesis
    using loop clean bridge wf unfolding fs1_def by blast
qed

text \<open>
  For a located file in whose text a pattern matches and which has no \<open>.backup\<close> beside
  it: \<open>patchKiro\<close> succeeds, changes the file and keeps its bytes in the \<open>.backup\<close>;
  \<open>restoreKiro\<close> then succeeds and writes to the file the text that the backup decodes
  to. That is the file's content from before the patch when decoding leaves those bytes as
  they are, as it does for a file of ASCII characters.
\<close>

lemma patch_then_restore_text:
  assumes "getValidExtensionPath env fs = Some path"
    and "fs path = Some (File original)"
    and "regex_test match_endpoint (TextDecoder_decode original)
         \<or> regex_test match_host (TextDecoder_decode original)"
    and "fs (path @ ''.backup'') = None"
  shows "\<exists>patched.
           foldl apply_pattern (TextDecoder_decode original, False) patterns = (patched, True)
         \<and> patched \<noteq> original
         \<and> patchKiro env fs
             = (succeeded, fs(path @ ''.backup'' \<mapsto> File original, path \<mapsto> File patched))
         \<and> restoreKiro env (fs(path @ ''.backup'' \<mapsto> File original, path \<mapsto> File patched))
             = (succeeded,
                fs(path @ ''.backup'' \<mapsto> File original,
                   path \<mapsto> File (TextDecoder_decode original)))"
proof -
  from patchKiro_patches [OF assms(1-3)] assms(4) obtain patched where
    loop: "foldl apply_pattern (TextDecoder_decode original, False) patterns = (patched, True)"
    and clean: "\<not> regex_test match_host patched"
    and bridge: "js_includes patched ''localhost:9980''"
    and wf: "utf8_decode patched = patched"
    and p: "patchKiro env fs
            = (succeeded, fs(path @ ''.backup'' \<mapsto> File original, path \<mapsto> File patched))"
    by auto
  define fs1 where "fs1 = fs(path @ ''.backup'' \<mapsto> File original, path \<mapsto> File patched)"
  have "regex_test match_host (TextDecoder_decode original)"
    using assms(3) regex_endpoint_host by blast
  moreover have "\<not> regex_test match_host (TextDecoder_decode patched)"
    using reread_patched [OF wf clean bridge] by simp
  ultimately have changed: "patched \<noteq> original"
    by auto
  have "getExtensionPath env (fs(path @ ''.backup'' \<mapsto> File original))
        = getExtensionPath env fs"
    by (rule getExtensionPath_update) blast
  moreover have "getExtensionPath env fs1
        = getExtensionPath env (fs(path @ ''.backup'' \<mapsto> File original))"
    unfolding fs1_def by (rule getExtensionPath_update) (simp add: assms(2))
  ultimately have loc1: "getExtensionPath env fs1 = Some path"
    using valid_is_located [OF assms(1)] by simp
  have ex: "fs_exists fs1 (path @ ''.backup'')"
    by (simp add: fs1_def fs_exists_def)
  have read: "readTextFile fs1 (path @ ''.backup'') = Inr (TextDecoder_decode original)"
    by (simp add: fs1_def readTextFile_def)
  have wr: "writeTextFile fs1 path (TextDecoder_decode original)
            = Inr (fs1(path \<mapsto> File (TextDecoder_decode original)))"
    by (simp add: fs1_def writeTextFile_def)
  have "restoreKiro env fs1 = (succeeded, fs1(path \<mapsto> File (TextDecoder_decode original)))"
    by (simp add: restoreKiro_def loc1 Let_def ex read wr)
  moreover have "fs1(path \<mapsto> File (TextDecoder_decode original))
                 = fs(path @ ''.backup'' \<mapsto> File original,
                      path \<mapsto> File (TextDecoder_decode original))"
    by (simp add: fs1_def)
  ultimately show ?thesis
    using loop changed p unfolding fs1_def by auto
qed

lemma patch_then_restore_ascii:
  assumes "getValidExtensionPath env fs = Some path"
    and "fs path = Some (File original)"
    and "\<forall>c\<in>set original. ascii c"
    and "regex_test match_endpoint original \<or> regex_test match_host original"
    and "fs (path @ ''.backup'') = None"
  shows "\<exists>fs1 fs2.
           patchKiro env fs = (succeeded, fs1)
         \<and> fs1 path \<noteq> fs path
         \<and> restoreKiro env fs1 = (succeeded, fs2)
         \<and> fs2 path = fs path"
proof -
  have d: "TextDecoder_decode original = original"
    using assms(3) by (rule TextDecoder_decode_ascii)
  from patch_then_restore_text [OF assms(1,2) _ assms(5)] assms(4) obtain patched where
    "patched \<noteq> original"
    "patchKiro env fs
       = (succeeded, fs(path @ ''.backup'' \<mapsto> File original, path \<mapsto> File patched))"
    "restoreKiro env (fs(path @ ''.backup'' \<mapsto> File original, path \<mapsto> File patched))
       = (succeeded, fs(path @ ''.backup'' \<mapsto> File original, path \<mapsto> File original))"
    unfolding d by blast
  moreover have "(fs(path @ ''.backup'' \<mapsto> File original, path \<mapsto> File patched)) path \<noteq> fs path"
    using calculation(1) assms(2) by simp
  moreover have "(fs(path @ ''.backup'' \<mapsto> File original, path \<mapsto> File original)) path = fs path"
    using assms(2) by simp
  ultimately show ?thesis
    by blast
qed

lemma linux_location:
  "getValidExtensionPath
     \<lparr>env_platform = ''Linux x86_64'', env_home = Some ''/home/dev'', env_separator = ''/''\<rparr>
     ([''/opt/Kiro'' \<mapsto> Directory,
       ''/opt/Kiro/resources/app/extensions/kiro.kiro-agent/dist/extension.js'' \<mapsto> node])
   = Some ''/opt/Kiro/resources/app/extensions/kiro.kiro-agent/dist/extension.js''"
  by (simp add: getValidExtensionPath_def getExtensionPath_def getKiroPath_def possiblePaths_def
      isWindows_def isMac_def toLowerCase_def to_lower_def path_join_def fs_exists_def)

lemma linux_extension_path:
  "getExtensionPath
     \<lparr>env_platform = ''Linux x86_64'', env_home = Some ''/home/dev'', env_separator = ''/''\<rparr>
     ([''/opt/Kiro'' \<mapsto> Directory,
       ''/opt/Kiro/resources/app/extensions/kiro.kiro-agent/dist/extension.js'' \<mapsto> live,
       ''/opt/Kiro/resources/app/extensions/kiro.kiro-agent/dist/extension.js.backup'' \<mapsto> backup])
   = Some ''/opt/Kiro/resources/app/extensions/kiro.kiro-agent/dist/extension.js''"
  by (simp add: getExtensionPath_def getKiroPath_def possiblePaths_def
      isWindows_def isMac_def toLowerCase_def to_lower_def path_join_def fs_exists_def)

lemma endpoint_text_patched:
  "foldl apply_pattern (''{endpoint:\"https://q.us-east-1.amazonaws.com\"}'', False) patterns
   = (''{endpoint: \"http://localhost:9980\"}'', True)"
  by (simp add: patterns_loop Let_def match_endpoint_def match_host_def strip_prefix_def
      is_region_char_def space_length_def white_space_def)

text \<open>
  C6. A file that starts with a byte order mark is not restored to its bytes: the backup
  holds them, but \<open>restoreKiro\<close> reads the backup as text, which drops the mark, and writes
  the text.
\<close>

theorem patch_then_restore_byte_order_mark:
  "patchKiro
     \<lparr>env_platform = ''Linux x86_64'', env_home = Some ''/home/dev'', env_separator = ''/''\<rparr>
     [''/opt/Kiro'' \<mapsto> Directory,
      ''/opt/Kiro/resources/app/extensions/kiro.kiro-agent/dist/extension.js''
        \<mapsto> File (CHR 0xEF # CHR 0xBB # CHR 0xBF
                  # ''{endpoint:\"https://q.us-east-1.amazonaws.com\"}'')]
   = (succeeded,
      [''/opt/Kiro'' \<mapsto> Directory,
       ''/opt/Kiro/resources/app/extensions/kiro.kiro-agent/dist/extension.js.backup''
         \<mapsto> File (CHR 0xEF # CHR 0xBB # CHR 0xBF
                   # ''{endpoint:\"https://q.us-east-1.amazonaws.com\"}''),
       ''/opt/Kiro/resources/app/extensions/kiro.kiro-agent/dist/extension.js''
         \<mapsto> File ''{endpoint: \"http://localhost:9980\"}''])
   \<and> restoreKiro
       \<lparr>env_platform = ''Linux x86_64'', env_home = Some ''/home/dev'', env_separator = ''/''\<rparr>
       [''/opt/Kiro'' \<mapsto> Directory,
        ''/opt/Kiro/resources/app/extensions/kiro.kiro-agent/dist/extension.js.backup''
          \<mapsto> File (CHR 0xEF # CHR 0xBB # CHR 0xBF
                    # ''{endpoint:\"https://q.us-east-1.amazonaws.com\"}''),
        ''/opt/Kiro/resources/app/extensions/kiro.kiro-agent/dist/extension.js''
          \<mapsto> File ''{endpoint: \"http://localhost:9980\"}'']
     = (succeeded,
        [''/opt/Kiro'' \<mapsto> Directory,
         ''/opt/Kiro/resources/app/extensions/kiro.kiro-agent/dist/extension.js.backup''
           \<mapsto> File (CHR 0xEF # CHR 0xBB # CHR 0xBF
                     # ''{endpoint:\"https://q.us-east-1.amazonaws.com\"}''),
         ''/opt/Kiro/resources/app/extensions/kiro.kiro-agent/dist/extension.js''
           \<mapsto> File ''{endpoint:\"https://q.us-east-1.amazonaws.com\"}''])
   \<and> File ''{endpoint:\"https://q.us-east-1.amazonaws.com\"}''
     \<noteq> File (CHR 0xEF # CHR 0xBB # CHR 0xBF
               # ''{endpoint:\"https://q.us-east-1.amazonaws.com\"}'')"
proof -
  let ?env = "\<lparr>env_platform = ''Linux x86_64'', env_home = Some ''/home/dev'',
               env_separator = ''/''\<rparr>"
  let ?path = "''/opt/Kiro/resources/app/extensions/kiro.kiro-agent/dist/extension.js''"
  let ?text = "''{endpoint:\"https://q.us-east-1.amazonaws.com\"}''"
  let ?original = "CHR 0xEF # CHR 0xBB # CHR 0xBF # ?text"
  let ?fs = "[''/opt/Kiro'' \<mapsto> Directory, ?path \<mapsto> File ?original]"
  have "\<forall>c\<in>set ?text. ascii c"
    by (simp add: ascii_def)
  then have "utf8_decode ?text = ?text"
    by (rule utf8_decode_ascii_text)
  then have "utf8_decode (byte_order_mark @ ?text) = byte_order_mark @ ?text"
    by (simp only: utf8_decode_byte_order_mark)
  then have d: "TextDecoder_decode ?original = ?text"
    by (simp add: TextDecoder_decode_def Let_def byte_order_mark_def)
  have loc: "getValidExtensionPath ?env ?fs = Some ?path"
    by (rule linux_location)
  have isfile: "?fs ?path = Some (File ?original)"
    by simp
  have pat: "regex_test match_endpoint (TextDecoder_decode ?original)
             \<or> regex_test match_host (TextDecoder_decode ?original)"
    unfolding d by (simp add: match_host_def strip_prefix_def is_region_char_def)
  have nb: "?fs (?path @ ''.backup'') = None"
    by simp
  have bp: "?path @ ''.backup''
        = ''/opt/Kiro/resources/app/extensions/kiro.kiro-agent/dist/extension.js.backup''"
    by simp
  from patch_then_restore_text [OF loc isfile pat nb] obtain patched where
    "foldl apply_pattern (TextDecoder_decode ?original, False) patterns = (patched, True)"
    and p: "patchKiro ?env ?fs
       = (succeeded, ?fs(?path @ ''.backup'' \<mapsto> File ?original, ?path \<mapsto> File patched))"
    and r: "restoreKiro ?env (?fs(?path @ ''.backup'' \<mapsto> File ?original, ?path \<mapsto> File patched))
       = (succeeded, ?fs(?path @ ''.backup'' \<mapsto> File ?original,
                         ?path \<mapsto> File (TextDecoder_decode ?original)))"
    by blast
  then have patched: "patched = ''{endpoint: \"http://localhost:9980\"}''"
    unfolding d by (simp only: endpoint_text_patched prod.inject)
  have less: "?fs(?path @ ''.backup'' \<mapsto> File ?original, ?path \<mapsto> File x)
              = [''/opt/Kiro'' \<mapsto> Directory,
                 ''/opt/Kiro/resources/app/extensions/kiro.kiro-agent/dist/extension.js.backup''
                   \<mapsto> File ?original,
                 ?path \<mapsto> File x]" for x
    by (rule ext) simp
  show ?thesis
    using p r unfolding patched d less by simp
qed

text \<open>
  A backup that is not UTF-8 is restored all the same: reading it does not fail, and each
  byte that cannot be decoded is written back as U+FFFD.
\<close>

lemma restoreKiro_replaces_ill_formed:
  "restoreKiro
     \<lparr>env_platform = ''Linux x86_64'', env_home = Some ''/home/dev'', env_separator = ''/''\<rparr>
     [''/opt/Kiro'' \<mapsto> Directory,
      ''/opt/Kiro/resources/app/extensions/kiro.kiro-agent/dist/extension.js''
        \<mapsto> File ''patched'',
      ''/opt/Kiro/resources/app/extensions/kiro.kiro-agent/dist/extension.js.backup''
        \<mapsto> File [CHR ''a'', CHR 0xFF, CHR ''b'']]
   = (succeeded,
      [''/opt/Kiro'' \<mapsto> Directory,
       ''/opt/Kiro/resources/app/extensions/kiro.kiro-agent/dist/extension.js.backup''
         \<mapsto> File [CHR ''a'', CHR 0xFF, CHR ''b''],
       ''/opt/Kiro/resources/app/extensions/kiro.kiro-agent/dist/extension.js''
         \<mapsto> File [CHR ''a'', CHR 0xEF, CHR 0xBF, CHR 0xBD, CHR ''b'']])"
proof -
  have d: "TextDecoder_decode [CHR ''a'', CHR 0xFF, CHR ''b'']
           = [CHR ''a'', CHR 0xEF, CHR 0xBF, CHR 0xBD, CHR ''b'']"
    by (simp add: TextDecoder_decode_def utf8_decode.simps(2) Let_def ascii_def bytes_needed_def
        continuation_0 replacement_character_def byte_order_mark_def)
  show ?thesis
    by (simp add: restoreKiro_def linux_extension_path Let_def fs_exists_def readTextFile_def
        writeTextFile_def d fun_upd_twist)
qed



section \<open>Reading the patch state\<close>

lemma isKiroPatched_iff:
  assumes "getValidExtensionPath env fs = Some path" and "fs path = Some (File bytes)"
  shows "isKiroPatched env fs \<longleftrightarrow>
           js_includes (TextDecoder_decode bytes) ''localhost:9980''
           \<and> \<not> js_includes (TextDecoder_decode bytes) ''https://q.us-east-1.amazonaws.com''"
  using assms by (simp add: isKiroPatched_def readTextFile_def)

text \<open>
  C8. \<open>isKiroPatched\<close> tests for the bridge's endpoint and for the one upstream endpoint
  \<^verbatim>\<open>https://q.us-east-1.amazonaws.com\<close>, not for the pattern \<open>patchKiro\<close> rewrites: a file
  that holds the bridge's endpoint and an upstream endpoint of another region, which the
  host pattern matches, reads as patched.
\<close>

theorem isKiroPatched_other_region:
  "isKiroPatched
     \<lparr>env_platform = ''Linux x86_64'', env_home = Some ''/home/dev'', env_separator = ''/''\<rparr>
     ([''/opt/Kiro'' \<mapsto> Directory,
       ''/opt/Kiro/resources/app/extensions/kiro.kiro-agent/dist/extension.js''
         \<mapsto> File ''{endpoint:\"https://q.eu-west-1.amazonaws.com\",dev:\"http://localhost:9980\"}''])
   \<and> TextDecoder_decode
         ''{endpoint:\"https://q.eu-west-1.amazonaws.com\",dev:\"http://localhost:9980\"}''
       = ''{endpoint:\"https://q.eu-west-1.amazonaws.com\",dev:\"http://localhost:9980\"}''
   \<and> regex_test match_host
         ''{endpoint:\"https://q.eu-west-1.amazonaws.com\",dev:\"http://localhost:9980\"}''
   \<and> regex_test match_endpoint
         ''{endpoint:\"https://q.eu-west-1.amazonaws.com\",dev:\"http://localhost:9980\"}''"
proof -
  let ?env = "\<lparr>env_platform = ''Linux x86_64'', env_home = Some ''/home/dev'',
               env_separator = ''/''\<rparr>"
  let ?path = "''/opt/Kiro/resources/app/extensions/kiro.kiro-agent/dist/extension.js''"
  let ?content = "''{endpoint:\"https://q.eu-west-1.amazonaws.com\",dev:\"http://localhost:9980\"}''"
  let ?fs = "[''/opt/Kiro'' \<mapsto> Directory, ?path \<mapsto> File ?content]"
  have "\<forall>c\<in>set ?content. ascii c"
    by (simp add: ascii_def)
  then have d: "TextDecoder_decode ?content = ?content"
    by (rule TextDecoder_decode_ascii)
  have isfile: "?fs ?path = Some (File ?content)"
    by simp
  have "isKiroPatched ?env ?fs \<longleftrightarrow>
          js_includes (TextDecoder_decode ?content) ''localhost:9980''
          \<and> \<not> js_includes (TextDecoder_decode ?content) ''https://q.us-east-1.amazonaws.com''"
    by (rule isKiroPatched_iff [OF linux_location isfile])
  then have "isKiroPatched ?env ?fs"
    unfolding d by simp
  moreover have "regex_test match_host
         ''{endpoint:\"https://q.eu-west-1.amazonaws.com\",dev:\"http://localhost:9980\"}''"
    by (simp add: match_host_def strip_prefix_def is_region_char_def)
  moreover have "match_endpoint
         ''endpoint:\"https://q.eu-west-1.amazonaws.com\",dev:\"http://localhost:9980\"}'' = Some 44"
    by (simp add: match_endpoint_def match_host_def strip_prefix_def is_region_char_def
        space_length_def white_space_def)
  then have "regex_test match_endpoint
         ''{endpoint:\"https://q.eu-west-1.amazonaws.com\",dev:\"http://localhost:9980\"}''"
    by simp
  ultimately show ?thesis
    using d by blast
qed

section \<open>Failures of \<open>restoreKiro\<close>\<close>

lemma restoreKiro_unlocated:
  "getExtensionPath env fs = None \<Longrightarrow>
   restoreKiro env fs = (failed ''Kiro extension not found'', fs)"
  by (simp add: restoreKiro_def)

lemma restoreKiro_no_backup:
  "getExtensionPath env fs = Some path \<Longrightarrow> fs (path @ ''.backup'') = None \<Longrightarrow>
   restoreKiro env fs = (failed ''No backup found'', fs)"
  by (simp add: restoreKiro_def fs_exists_def)

lemma restoreKiro_unreadable:
  "getExtensionPath env fs = Some path \<Longrightarrow> fs (path @ ''.backup'') \<noteq> None \<Longrightarrow>
   readTextFile fs (path @ ''.backup'') = Inl e \<Longrightarrow>
   restoreKiro env fs = (threw e, fs)"
  by (auto simp: restoreKiro_def fs_exists_def Let_def)

lemma restoreKiro_failed:
  "\<not> success (fst (restoreKiro env fs)) \<Longrightarrow> snd (restoreKiro env fs) = fs"
  by (auto simp: restoreKiro_def Let_def succeeded_def split: option.splits sum.splits if_splits)

text \<open>
  C10. \<open>restoreKiro\<close> changes the file system only when it succeeds. When the extension
  cannot be located, when there is no \<open>.backup\<close>, and when the \<open>.backup\<close> cannot be
  read, it returns a failure with its reason and the file system it was given; and
  whenever its result is a failure, the file system is unchanged.
\<close>

theorem restoreKiro_failure_keeps_files:
  "(getExtensionPath env fs = None \<longrightarrow>
      restoreKiro env fs
      = (\<lparr>success = False, error = Some (Message ''Kiro extension not found'')\<rparr>, fs))
   \<and> (\<forall>path. getExtensionPath env fs = Some path \<and> fs (path @ ''.backup'') = None \<longrightarrow>
      restoreKiro env fs = (\<lparr>success = False, error = Some (Message ''No backup found'')\<rparr>, fs))
   \<and> (\<forall>path e. getExtensionPath env fs = Some path \<and> fs (path @ ''.backup'') \<noteq> None
         \<and> readTextFile fs (path @ ''.backup'') = Inl e \<longrightarrow>
      restoreKiro env fs = (\<lparr>success = False, error = Some (String_of e)\<rparr>, fs))
   \<and> (\<not> success (fst (restoreKiro env fs)) \<longrightarrow> snd (restoreKiro env fs) = fs)"
  using restoreKiro_unlocated [of env fs] restoreKiro_no_backup [of env fs]
    restoreKiro_unreadable [of env fs] restoreKiro_failed [of env fs]
  unfolding failed_def threw_def by blast

theorem restoreKiro_failure_keeps_files_witness:
  "restoreKiro
     \<lparr>env_platform = ''Linux x86_64'', env_home = Some ''/home/dev'', env_separator = ''/''\<rparr>
     ([''/opt/Kiro'' \<mapsto> Directory,
       ''/opt/Kiro/resources/app/extensions/kiro.kiro-agent/dist/extension.js''
         \<mapsto> File ''{endpoint:\"http://localhost:9980\"}'',
       ''/opt/Kiro/resources/app/extensions/kiro.kiro-agent/dist/extension.js.backup''
         \<mapsto> Directory])
   = (\<lparr>success = False, error = Some (String_of IsADirectory)\<rparr>,
      [''/opt/Kiro'' \<mapsto> Directory,
       ''/opt/Kiro/resources/app/extensions/kiro.kiro-agent/dist/extension.js''
         \<mapsto> File ''{endpoint:\"http://localhost:9980\"}'',
       ''/opt/Kiro/resources/app/extensions/kiro.kiro-agent/dist/extension.js.backup''
         \<mapsto> Directory])
   \<and> restoreKiro
       \<lparr>env_platform = ''Linux x86_64'', env_home = Some ''/home/dev'', env_separator = ''/''\<rparr>
       ([''/opt/Kiro'' \<mapsto> Directory,
         ''/opt/Kiro/resources/app/extensions/kiro.kiro-agent/dist/extension.js''
           \<mapsto> File ''{endpoint:\"http://localhost:9980\"}''])
     = (\<lparr>success = False, error = Some (Message ''No backup found'')\<rparr>,
        [''/opt/Kiro'' \<mapsto> Directory,
         ''/opt/Kiro/resources/app/extensions/kiro.kiro-agent/dist/extension.js''
           \<mapsto> File ''{endpoint:\"http://localhost:9980\"}''])
   \<and> restoreKiro
       \<lparr>env_platform = ''Linux x86_64'', env_home = Some ''/home/dev'', env_separator = ''/''\<rparr>
       Map.empty
     = (\<lparr>success = False, error = Some (Message ''Kiro extension not found'')\<rparr>, Map.empty)"
proof (intro conjI)
  let ?env = "\<lparr>env_platform = ''Linux x86_64'', env_home = Some ''/home/dev'',
               env_separator = ''/''\<rparr>"
  let ?path = "''/opt/Kiro/resources/app/extensions/kiro.kiro-agent/dist/extension.js''"
  let ?fs = "[''/opt/Kiro'' \<mapsto> Directory,
              ?path \<mapsto> File ''{endpoint:\"http://localhost:9980\"}'',
              ''/opt/Kiro/resources/app/extensions/kiro.kiro-agent/dist/extension.js.backup''
                \<mapsto> Directory]"
  let ?bare = "[''/opt/Kiro'' \<mapsto> Directory,
                ?path \<mapsto> File ''{endpoint:\"http://localhost:9980\"}'']"
  have pre: "getExtensionPath ?env ?fs = Some ?path \<and> ?fs (?path @ ''.backup'') \<noteq> None
        \<and> readTextFile ?fs (?path @ ''.backup'') = Inl IsADirectory"
    using linux_extension_path by (simp add: readTextFile_def)
  from restoreKiro_failure_keeps_files [of ?env ?fs]
  have "\<forall>path e. getExtensionPath ?env ?fs = Some path \<and> ?fs (path @ ''.backup'') \<noteq> None
         \<and> readTextFile ?fs (path @ ''.backup'') = Inl e \<longrightarrow>
      restoreKiro ?env ?fs = (\<lparr>success = False, error = Some (String_of e)\<rparr>, ?fs)"
    by (elim conjE)
  from this [rule_format, OF pre]
  show "restoreKiro ?env ?fs = (\<lparr>success = False, error = Some (String_of IsADirectory)\<rparr>, ?fs)" .
  have "getValidExtensionPath ?env ?bare = Some ?path"
    by (rule linux_location)
  then have pre2: "getExtensionPath ?env ?bare = Some ?path \<and> ?bare (?path @ ''.backup'') = None"
    by (simp add: valid_is_located)
  from restoreKiro_failure_keeps_files [of ?env ?bare]
  have "\<forall>path. getExtensionPath ?env ?bare = Some path \<and> ?bare (path @ ''.backup'') = None \<longrightarrow>
      restoreKiro ?env ?bare
      = (\<lparr>success = False, error = Some (Message ''No backup found'')\<rparr>, ?bare)"
    by (elim conjE)
  from this [rule_format, OF pre2]
  show "restoreKiro ?env ?bare
        = (\<lparr>success = False, error = Some (Message ''No backup found'')\<rparr>, ?bare)" .
  have pre3: "getExtensionPath ?env Map.empty = None"
    by (simp add: getExtensionPath_def getKiroPath_def possiblePaths_def
        isWindows_def isMac_def toLowerCase_def to_lower_def path_join_def fs_exists_def)
  from restoreKiro_failure_keeps_files [of ?env Map.empty]
  have "getExtensionPath ?env Map.empty = None \<longrightarrow>
      restoreKiro ?env Map.empty
      = (\<lparr>success = False, error = Some (Message ''Kiro extension not found'')\<rparr>, Map.empty)"
    by (elim conjE)
  from this [rule_format, OF pre3]
  show "restoreKiro ?env Map.empty
        = (\<lparr>success = False, error = Some (Message ''Kiro extension not found'')\<rparr>, Map.empty)" .
qed

end
